theory Spec2Isabelle
  imports Complex_Main "HOL-Library.Multiset"
begin

section \<open>Shared Python and NumPy primitives\<close>

text \<open>
  Exceptions of the Python sources are values. Floating-point quotients of small integer
  counts are modelled by exact rationals.
\<close>

datatype py_error = IndexError | ValueError | RuntimeError | ZeroDivisionError | TypeError | KeyError

text \<open>
  A dictionary that is first filled with a default and then mutated in place
  (\<^verbatim>\<open>d.setdefault(k, init)\<close> followed by an update, or a \<^verbatim>\<open>defaultdict\<close> with
  \<^verbatim>\<open>d[k] += 1\<close>): an association list in insertion order.
\<close>

fun upd_default :: "'k \<Rightarrow> 'v \<Rightarrow> ('v \<Rightarrow> 'v) \<Rightarrow> ('k \<times> 'v) list \<Rightarrow> ('k \<times> 'v) list" where
  "upd_default k d f [] = [(k, f d)]"
| "upd_default k d f ((k', v) # kvs) =
     (if k' = k then (k', f v) # kvs else (k', v) # upd_default k d f kvs)"



text \<open>
  \<^verbatim>\<open>round(x)\<close> of Python and NumPy on a float: to the nearest integer, ties to the even one.
\<close>

definition py_round :: "rat \<Rightarrow> int" where
  "py_round x =
     (let f = \<lfloor>x\<rfloor>; d = x - of_int f
      in if d < 1 / 2 then f else if 1 / 2 < d then f + 1 else if even f then f else f + 1)"

text \<open>
  Binary64 floats. The value of a float is a rational; \<open>to_double\<close> rounds a rational to
  the nearest float, ties to the even significand: with \<open>2 ^ e \<le> |x| < 2 ^ (e + 1)\<close> the
  floats around \<open>x\<close> are the multiples of \<open>2 ^ (e - 52)\<close>. The limits of the exponent range
  are not modelled; quotients of 64-bit integers and their multiples by \<open>10 ^ 4\<close> lie far
  inside it.
\<close>

function bit_length :: "int \<Rightarrow> int" where
  "bit_length k = (if k \<le> 0 then 0 else 1 + bit_length (k div 2))"
  by pat_completeness auto
termination
  by (relation "measure nat") auto

definition pow2 :: "int \<Rightarrow> rat" where
  "pow2 e = (if 0 \<le> e then 2 ^ nat e else 1 / 2 ^ nat (- e))"

definition float_exponent :: "rat \<Rightarrow> int" where
  "float_exponent x =
     (let (p, q) = quotient_of x; e = bit_length p - bit_length q
      in if pow2 e \<le> x then e else e - 1)"

definition to_double :: "rat \<Rightarrow> rat" where
  "to_double x =
     (if x = 0 then 0
      else let u = pow2 (float_exponent \<bar>x\<bar> - 52) in of_int (py_round (x / u)) * u)"

text \<open>
  \<^verbatim>\<open>a / b\<close> on two int64 values in NumPy (both are converted to floats first), and the
  sum of two floats.
\<close>

definition float_div :: "int \<Rightarrow> int \<Rightarrow> rat" where
  "float_div a b = to_double (to_double (of_int a) / to_double (of_int b))"


text \<open>
  \<^verbatim>\<open>round(x, 4)\<close> of Python on a float \<open>x\<close>: the decimal with four places nearest to the
  exact value of \<open>x\<close>, ties to even, and then the float nearest to that decimal.
\<close>

definition round4 :: "rat \<Rightarrow> rat" where
  "round4 x = to_double (of_int (py_round (x * 10000)) / 10000)"







text \<open>A sum of int64 values wraps around: the result is read as a signed 64-bit integer.\<close>

definition int64 :: "int \<Rightarrow> int" where
  "int64 x = (x + 2 ^ 63) mod 2 ^ 64 - 2 ^ 63"


text \<open>
  \<^verbatim>\<open>range(a, b, d)\<close> and \<^verbatim>\<open>np.arange(a, b, d)\<close> on integers: \<open>a, a + d, a + 2 d, \<dots>\<close> as long
  as \<open>b\<close> is not reached. A zero step raises ValueError in \<^verbatim>\<open>range\<close> and
  ZeroDivisionError in \<^verbatim>\<open>np.arange\<close>.
\<close>

definition range_len :: "int \<Rightarrow> int \<Rightarrow> int \<Rightarrow> nat" where
  "range_len a b d =
     (if 0 < d \<and> a < b then nat ((b - a + d - 1) div d)
      else if d < 0 \<and> b < a then nat ((a - b - d - 1) div (- d))
      else 0)"

definition progression :: "int \<Rightarrow> int \<Rightarrow> int \<Rightarrow> int list" where
  "progression a b d = map (\<lambda>k. a + int k * d) [0..<range_len a b d]"

definition py_range :: "int \<Rightarrow> int \<Rightarrow> int \<Rightarrow> py_error + int list" where
  "py_range a b d = (if d = 0 then Inl ValueError else Inr (progression a b d))"

definition np_arange :: "int \<Rightarrow> int \<Rightarrow> int \<Rightarrow> py_error + int list" where
  "np_arange a b d = (if d = 0 then Inl ZeroDivisionError else Inr (progression a b d))"

text \<open>The assignment \<^verbatim>\<open>xs[i] = v\<close> on a Python list or a one-dimensional ndarray.\<close>

definition py_setitem :: "'a list \<Rightarrow> int \<Rightarrow> 'a \<Rightarrow> py_error + 'a list" where
  "py_setitem xs i v =
     (if 0 \<le> i \<and> i < int (length xs) then Inr (xs[nat i := v])
      else if i < 0 \<and> - int (length xs) \<le> i then Inr (xs[nat (int (length xs) + i) := v])
      else Inl IndexError)"

text \<open>
  The random source is an oracle: a list of choices, read from the front, 0 once it is
  used up. \<^verbatim>\<open>random.sample(pool, k)\<close> draws \<open>k\<close> positions without replacement;
  \<^verbatim>\<open>random.shuffle(xs)\<close> is the sample of all positions.
\<close>

fun sample_with :: "nat list \<Rightarrow> 'a list \<Rightarrow> nat \<Rightarrow> 'a list" where
  "sample_with cs pool 0 = []"
| "sample_with cs [] (Suc k) = []"
| "sample_with cs (p # pool) (Suc k) =
     (let i = (case cs of [] \<Rightarrow> 0 | c # _ \<Rightarrow> c mod Suc (length pool))
      in (p # pool) ! i # sample_with (tl cs) (take i (p # pool) @ drop (Suc i) (p # pool)) k)"

definition py_sample :: "nat list \<Rightarrow> 'a list \<Rightarrow> int \<Rightarrow> py_error + 'a list" where
  "py_sample cs pool k =
     (if k < 0 \<or> int (length pool) < k then Inl ValueError
      else Inr (sample_with cs pool (nat k)))"

definition shuffle_with :: "nat list \<Rightarrow> 'a list \<Rightarrow> 'a list" where
  "shuffle_with cs xs = sample_with cs xs (length xs)"

text \<open>\<^verbatim>\<open>xs.index(x)\<close>: the position of the first occurrence, ValueError without one.\<close>

fun py_index :: "'a list \<Rightarrow> 'a \<Rightarrow> py_error + nat" where
  "py_index [] x = Inl ValueError"
| "py_index (y # ys) x =
     (if y = x then Inr 0
      else case py_index ys x of Inl e \<Rightarrow> Inl e | Inr i \<Rightarrow> Inr (Suc i))"

text \<open>An index into an ndarray axis of length \<open>n\<close>, as a position.\<close>

definition np_index :: "nat \<Rightarrow> int \<Rightarrow> py_error + nat" where
  "np_index n i =
     (if 0 \<le> i \<and> i < int n then Inr (nat i)
      else if i < 0 \<and> - int n \<le> i then Inr (nat (int n + i))
      else Inl IndexError)"

text \<open>Dictionary assignment \<^verbatim>\<open>d[k] = v\<close> and removal \<^verbatim>\<open>d.pop(k, None)\<close>.\<close>

fun dict_set :: "'k \<Rightarrow> 'v \<Rightarrow> ('k \<times> 'v) list \<Rightarrow> ('k \<times> 'v) list" where
  "dict_set k v [] = [(k, v)]"
| "dict_set k v ((k', v') # kvs) =
     (if k' = k then (k', v) # kvs else (k', v') # dict_set k v kvs)"

definition dict_pop :: "'k \<Rightarrow> ('k \<times> 'v) list \<Rightarrow> ('k \<times> 'v) list" where
  "dict_pop k kvs = filter (\<lambda>kv. fst kv \<noteq> k) kvs"

section \<open>Spatial outcome reducer (core/spatial\_analysis.py)\<close>

text \<open>The per-region dictionary while the answers are aggregated (step 1 of the source).\<close>

record tally =
  total :: nat
  correct :: nat
  answers :: "(int \<times> nat) list"

text \<open>The per-region dictionary once \<^verbatim>\<open>accuracy\<close> is stored and the answers are sorted.\<close>

record region_stat = tally +
  accuracy :: rat

record spatial_summary =
  regions :: "(int \<times> region_stat) list"
  mean_accuracy :: rat

definition empty_tally :: tally where
  "empty_tally = \<lparr>total = 0, correct = 0, answers = []\<rparr>"

text \<open>
  The body of \<^verbatim>\<open>for true, pred in answers\<close>: the three updates of the region's entry,
  then the \<^verbatim>\<open>setdefault\<close> that finds or creates the entry.
\<close>

definition record_answer :: "int \<Rightarrow> int \<Rightarrow> tally \<Rightarrow> tally" where
  "record_answer true pred st =
     st\<lparr>total := total st + 1,
        correct := correct st + (if true = pred then 1 else 0),
        answers := upd_default pred 0 (\<lambda>c. c + 1) (answers st)\<rparr>"

definition tally_answer :: "(int \<times> tally) list \<Rightarrow> int \<times> int \<Rightarrow> (int \<times> tally) list" where
  "tally_answer stats tp =
     upd_default (fst tp) empty_tally (record_answer (fst tp) (snd tp)) stats"

text \<open>Step 2: \<^verbatim>\<open>st['accuracy'] = st['correct'] / max(1, st['total'])\<close> and the sorted answers.\<close>

definition finish_region :: "tally \<Rightarrow> region_stat" where
  "finish_region st =
     \<lparr>total = total st, correct = correct st,
      answers = sort_key fst (answers st),
      accuracy = of_nat (correct st) / of_nat (max 1 (total st))\<rparr>"

definition analyse_spatial :: "(int \<times> int) list \<Rightarrow> spatial_summary" where
  "analyse_spatial ans =
     (let stats = foldl tally_answer [] ans;
          stats' = map (\<lambda>(r, st). (r, finish_region st)) stats;
          mean_acc = of_nat (sum_list (map (\<lambda>(r, st). correct st) stats'))
                     / of_nat (max 1 (sum_list (map (\<lambda>(r, st). total st) stats')))
      in \<lparr>regions = stats', mean_accuracy = mean_acc\<rparr>)"

section \<open>Confusion-matrix analyser (core/pmpwm\_analysis.py)\<close>








text \<open>
  \<^verbatim>\<open>cm / cm.sum(axis=1, keepdims=True).clip(min=1)\<close> on the int64 matrix
  \<^verbatim>\<open>cm.astype(int)\<close>: the row sum is an int64 and wraps around, it is clipped from below
  at 1, and every entry of the row is divided by it as a float.
\<close>

definition normalise_row :: "int list \<Rightarrow> rat list" where
  "normalise_row row = map (\<lambda>c. float_div c (max 1 (int64 (sum_list row)))) row"










section \<open>Configuration (core/config.py)\<close>

text \<open>The dictionary of hyperparameters, with the keys the three procedures read.\<close>

datatype mode = Pairs | Single

record hyps =
  n_motors :: int
  num_motor_start :: int
  num_motor_end :: int
  use_motors_step :: int
  exps_for_each_motor :: int
  end_pwm_down :: int
  end_pwm_up :: int
  delta_pwm_down :: int
  delta_pwm_up :: int
  max_counter_samples :: int
  spatial_pwm :: int
  spatial_mode :: mode
  pmpwm_pwm_values :: "int list"
  pmpwm_repeats :: int

definition default_hyps :: hyps where
  "default_hyps =
     \<lparr>n_motors = 10, num_motor_start = 0, num_motor_end = 5, use_motors_step = 2,
      exps_for_each_motor = 3, end_pwm_down = 0, end_pwm_up = 30,
      delta_pwm_down = - 5, delta_pwm_up = 2,
      max_counter_samples = 20, spatial_pwm = 30, spatial_mode = Pairs,
      pmpwm_pwm_values = [14, 22, 36, 60, 100], pmpwm_repeats = 4\<rparr>"

section \<open>Actuation port (core/serial\_api.py)\<close>

text \<open>
  The state of a \<^verbatim>\<open>VibroBox\<close>: its motor count, whether a serial port is open, and the
  arrays written to the port so far, oldest first. The motors hold the array written last.
  The encoding of an array as bytes belongs to the transport and is not modelled.
  \<open>vb_indicated\<close> is not a field of the source: it counts the completed calls of
  \<^verbatim>\<open>begin_end_indicator\<close>, so that a property can say whether the indicator was fired.
\<close>

record vibrobox =
  vb_n_motors :: int
  vb_connected :: bool
  vb_written :: "int list list"
  vb_indicated :: nat

text \<open>
  What a call of the engine comes to: a value, an exception, or a response wait that
  never ends because neither an answer nor a cancellation arrives.
\<close>

datatype 'a outcome = Returned 'a | Raised py_error | Waiting

fun andthen :: "'a outcome \<Rightarrow> ('a \<Rightarrow> 'b outcome) \<Rightarrow> 'b outcome" where
  "andthen (Returned x) f = f x"
| "andthen (Raised e) f = Raised e"
| "andthen Waiting f = Waiting"

fun lift :: "py_error + 'a \<Rightarrow> 'a outcome" where
  "lift (Inl e) = Raised e"
| "lift (Inr x) = Returned x"

definition write_array :: "int list \<Rightarrow> vibrobox \<Rightarrow> vibrobox outcome" where
  "write_array arr vb =
     (if \<not> vb_connected vb then Raised RuntimeError
      else Returned (vb\<lparr>vb_written := vb_written vb @ [arr]\<rparr>))"

definition set_pwm_values :: "int list \<Rightarrow> vibrobox \<Rightarrow> vibrobox outcome" where
  "set_pwm_values pwm_values vb =
     (if int (length pwm_values) \<noteq> vb_n_motors vb then Raised ValueError
      else write_array pwm_values vb)"

definition reset_pwm_values :: "vibrobox \<Rightarrow> vibrobox outcome" where
  "reset_pwm_values vb = set_pwm_values (replicate (nat (vb_n_motors vb)) 0) vb"

text \<open>\<^verbatim>\<open>begin_end_indicator(val=20, repeats=2)\<close>: two blinks of all motors.\<close>

definition blink :: "vibrobox \<Rightarrow> vibrobox outcome" where
  "blink vb =
     andthen (set_pwm_values (replicate (nat (vb_n_motors vb)) 20) vb) reset_pwm_values"

definition begin_end_indicator :: "vibrobox \<Rightarrow> vibrobox outcome" where
  "begin_end_indicator vb =
     andthen (blink vb) (\<lambda>vb.
     andthen (blink vb) (\<lambda>vb.
     Returned (vb\<lparr>vb_indicated := Suc (vb_indicated vb)\<rparr>)))"

text \<open>The motors are at zero when the array written last holds zeros only.\<close>

definition motors_off :: "vibrobox \<Rightarrow> bool" where
  "motors_off vb = (vb_written vb \<noteq> [] \<and> list_all (\<lambda>v. v = 0) (last (vb_written vb)))"

section \<open>The worker thread and the control context\<close>

text \<open>
  A worker shares two things with the control context: the flag \<^verbatim>\<open>_stop\<close>, set by
  \<^verbatim>\<open>stop()\<close> and never cleared, and the answer slot, set by \<^verbatim>\<open>set_answer\<close>. The worker
  reads them at fixed points only. The script lists what the control context does, in
  order:
  \<^item> \<open>Answer a\<close>: \<^verbatim>\<open>set_answer(a)\<close> while the worker polls for the response;
  \<^item> \<open>Stop\<close>: \<^verbatim>\<open>stop()\<close> while the worker polls for the response (or so shortly before
    that the worker sees it there first);
  \<^item> \<open>Stop_asleep\<close>: \<^verbatim>\<open>stop()\<close> during a \<^verbatim>\<open>time.sleep\<close> of the worker.

  An answer given while the worker sleeps is wiped before the next wait and has no effect,
  so the script does not list it.
\<close>

datatype 'a event = Answer 'a | Stop | Stop_asleep

record 'a worker =
  vibro :: vibrobox
  stop :: bool
  answer :: "'a option"
  script :: "'a event list"

text \<open>\<^verbatim>\<open>time.sleep(\<dots>)\<close>: a \<^verbatim>\<open>stop()\<close> due during a sleep takes effect.\<close>

definition sleep :: "('a, 'b) worker_scheme \<Rightarrow> ('a, 'b) worker_scheme" where
  "sleep w =
     (case script w of
        Stop_asleep # es \<Rightarrow> w\<lparr>stop := True, script := es\<rparr>
      | _ \<Rightarrow> w)"

text \<open>
  The response wait: the slot is cleared, then the worker polls
  \<^verbatim>\<open>while answer is None and not self._stop\<close>. With the flag already set the loop ends at
  once; otherwise it ends with the next thing the control context does, and never if the
  control context does nothing more.
\<close>

definition await :: "('a, 'b) worker_scheme \<Rightarrow> ('a, 'b) worker_scheme outcome" where
  "await w =
     (if stop w then Returned (w\<lparr>answer := None\<rparr>)
      else case script w of
             [] \<Rightarrow> Waiting
           | Answer a # es \<Rightarrow> Returned (w\<lparr>answer := Some a, script := es\<rparr>)
           | Stop # es \<Rightarrow> Returned (w\<lparr>answer := None, stop := True, script := es\<rparr>)
           | Stop_asleep # es \<Rightarrow> Returned (w\<lparr>answer := None, stop := True, script := es\<rparr>))"

text \<open>The port operations on the worker's \<^verbatim>\<open>self.vibro\<close>.\<close>

definition actuate :: "int list \<Rightarrow> ('a, 'b) worker_scheme \<Rightarrow> ('a, 'b) worker_scheme outcome" where
  "actuate arr w = andthen (set_pwm_values arr (vibro w)) (\<lambda>vb. Returned (w\<lparr>vibro := vb\<rparr>))"

definition reset :: "('a, 'b) worker_scheme \<Rightarrow> ('a, 'b) worker_scheme outcome" where
  "reset w = andthen (reset_pwm_values (vibro w)) (\<lambda>vb. Returned (w\<lparr>vibro := vb\<rparr>))"

definition end_indicator :: "('a, 'b) worker_scheme \<Rightarrow> ('a, 'b) worker_scheme outcome" where
  "end_indicator w =
     andthen (begin_end_indicator (vibro w)) (\<lambda>vb. Returned (w\<lparr>vibro := vb\<rparr>))"

text \<open>
  Notions for stating the properties: the port takes a stimulus on the motor (it is
  connected and the index is one of its array), and a cancellation lies ahead (the
  control context gives the answers \<open>as\<close> and then calls \<^verbatim>\<open>stop()\<close> during a response wait).
\<close>

definition accepts :: "vibrobox \<Rightarrow> int \<Rightarrow> bool" where
  "accepts vb motor =
     (vb_connected vb \<and> - vb_n_motors vb \<le> motor \<and> motor < vb_n_motors vb)"

definition cancel_ahead :: "'a list \<Rightarrow> 'a event list \<Rightarrow> ('a, 'b) worker_scheme \<Rightarrow> bool" where
  "cancel_ahead as rest w = (\<not> stop w \<and> script w = map Answer as @ Stop # rest)"

section \<open>Threshold-finding procedure (core/mols\_test.py)\<close>

text \<open>
  The patient's answer: \<^verbatim>\<open>'y'\<close> (felt) or \<^verbatim>\<open>'n'\<close> (not felt); the empty string of the
  source is the empty slot.
\<close>

datatype yn = Yes | No

text \<open>
  \<^verbatim>\<open>_probe\<close>: the loop \<^verbatim>\<open>for v in seq\<close> with the local \<^verbatim>\<open>pwm_arr\<close>, then the value for an
  exhausted sequence. The code \<open>-1\<close> reports a cancellation.
\<close>

fun probe_loop :: "hyps \<Rightarrow> yn \<Rightarrow> int \<Rightarrow> int list \<Rightarrow> int list \<Rightarrow> yn worker
                     \<Rightarrow> (int \<times> yn worker) outcome" where
  "probe_loop h positive_answer motor_idx pwm_arr [] w =
     Returned (if positive_answer = No then \<bar>delta_pwm_down h\<bar> else end_pwm_up h, w)"
| "probe_loop h positive_answer motor_idx pwm_arr (v # seq) w =
     (if stop w then andthen (reset w) (\<lambda>w. Returned (- 1, w))
      else
        andthen (lift (py_setitem pwm_arr motor_idx v)) (\<lambda>pwm_arr.
        andthen (actuate pwm_arr w) (\<lambda>w.
        andthen (reset (sleep w)) (\<lambda>w.
        andthen (await w) (\<lambda>w.
          if stop w then andthen (reset w) (\<lambda>w. Returned (- 1, w))
          else if answer w = Some positive_answer then
            Returned (v + \<bar>if positive_answer = No then delta_pwm_down h else 0\<bar>, w)
          else probe_loop h positive_answer motor_idx pwm_arr seq (sleep w))))))"

definition probe :: "hyps \<Rightarrow> int list \<Rightarrow> int \<Rightarrow> yn \<Rightarrow> yn worker \<Rightarrow> (int \<times> yn worker) outcome" where
  "probe h seq motor_idx positive_answer w =
     probe_loop h positive_answer motor_idx (replicate (nat (n_motors h)) 0) seq w"

text \<open>
  The two passes. \<open>draw\<close> is the value of \<^verbatim>\<open>random.randint(3, 4)\<close> and of
  \<^verbatim>\<open>random.randint(2, 8)\<close>.
\<close>

definition downstream :: "hyps \<Rightarrow> int \<Rightarrow> int \<Rightarrow> yn worker \<Rightarrow> (int \<times> yn worker) outcome" where
  "downstream h draw motor_idx w =
     andthen (lift (np_arange (draw * 10) 20 (delta_pwm_down h))) (\<lambda>head.
     andthen (lift (np_arange 20 (end_pwm_down h) (- 2))) (\<lambda>tail.
     probe h (head @ tail) motor_idx No w))"

definition upstream :: "hyps \<Rightarrow> int \<Rightarrow> int \<Rightarrow> yn worker \<Rightarrow> (int \<times> yn worker) outcome" where
  "upstream h draw motor_idx w =
     andthen (lift (np_arange draw (end_pwm_up h) (delta_pwm_up h))) (\<lambda>seq.
     probe h seq motor_idx Yes w)"

text \<open>
  The state of \<^verbatim>\<open>run\<close> between two passes: the dictionary \<^verbatim>\<open>results\<close>, the counter
  \<^verbatim>\<open>done\<close> and the worker. \<open>draws k\<close> is the random start of the pass counted \<open>k\<close>.
\<close>

record mols_state =
  results :: "(int \<times> int list) list"
  done_steps :: nat
  mols_worker :: "yn worker"

text \<open>
  \<^verbatim>\<open>for direction in streams\<close>: \<open>Quit\<close> when the body returns from \<^verbatim>\<open>run\<close>, \<open>Next\<close>
  with the state after the last pass otherwise.
\<close>

datatype 'a flow = Next 'a | Quit 'a

fun run_streams :: "hyps \<Rightarrow> (nat \<Rightarrow> int) \<Rightarrow> int \<Rightarrow> int list \<Rightarrow> mols_state
                      \<Rightarrow> mols_state flow outcome" where
  "run_streams h draws m [] s = Returned (Next s)"
| "run_streams h draws m (direction # streams) s =
     (if stop (mols_worker s) then Returned (Quit s)
      else
        andthen ((if direction = 1 then downstream else upstream)
                   h (draws (done_steps s)) m (mols_worker s)) (\<lambda>(pwm, w).
          if pwm = - 1 then
            Returned (Quit (s\<lparr>done_steps := Suc (done_steps s), mols_worker := w\<rparr>))
          else
            andthen (end_indicator w) (\<lambda>w.
            run_streams h draws m streams
              \<lparr>results = upd_default m [] (\<lambda>v. v @ [pwm]) (results s),
               done_steps = Suc (done_steps s),
               mols_worker = sleep w\<rparr>)))"

text \<open>\<^verbatim>\<open>for m in motors\<close>, with the shuffle of \<^verbatim>\<open>[0, 1] * exps_for_each_motor\<close> per motor.\<close>

fun run_motors :: "hyps \<Rightarrow> (int \<Rightarrow> nat list) \<Rightarrow> (nat \<Rightarrow> int) \<Rightarrow> int list \<Rightarrow> mols_state
                     \<Rightarrow> mols_state flow outcome" where
  "run_motors h stream_choices draws [] s = Returned (Next s)"
| "run_motors h stream_choices draws (m # motors) s =
     andthen
       (run_streams h draws m
          (shuffle_with (stream_choices m)
             (concat (replicate (nat (exps_for_each_motor h)) [0, 1]))) s)
       (\<lambda>r. case r of
               Quit s \<Rightarrow> Returned (Quit s)
             | Next s \<Rightarrow> run_motors h stream_choices draws motors s)"

text \<open>
  \<^verbatim>\<open>MolsWorker.run\<close>. The first component is the dictionary emitted with \<^verbatim>\<open>finished\<close>,
  \<open>None\<close> when the run returns without emitting it.
\<close>

definition mean_threshold :: "int list \<Rightarrow> int" where
  "mean_threshold v = py_round (of_int (sum_list v) / of_nat (length v))"

definition mols_run :: "hyps \<Rightarrow> (int \<Rightarrow> nat list) \<Rightarrow> (nat \<Rightarrow> int) \<Rightarrow> yn worker
                          \<Rightarrow> ((int \<times> int) list option \<times> yn worker) outcome" where
  "mols_run h stream_choices draws w =
     andthen (lift (py_range (num_motor_start h) (num_motor_end h + 1) (use_motors_step h)))
       (\<lambda>motors.
     andthen (run_motors h stream_choices draws motors
                \<lparr>results = [], done_steps = 0, mols_worker = w\<rparr>) (\<lambda>r.
       case r of
         Quit s \<Rightarrow> Returned (None, mols_worker s)
       | Next s \<Rightarrow>
           Returned (Some (map (\<lambda>(k, v). (k, mean_threshold v)) (results s)),
                     mols_worker s)))"

text \<open>
  Notions for stating the properties of a pass: the port takes the stimuli of the motor
  (it is connected, has the configured motor count, and the motor index is one of the
  array), and the intensity sequences the two passes build.
\<close>

definition ready :: "hyps \<Rightarrow> int \<Rightarrow> ('a, 'b) worker_scheme \<Rightarrow> bool" where
  "ready h motor_idx w =
     (vb_connected (vibro w) \<and> vb_n_motors (vibro w) = n_motors h
      \<and> - n_motors h \<le> motor_idx \<and> motor_idx < n_motors h)"

definition descending_seq :: "hyps \<Rightarrow> int \<Rightarrow> int list" where
  "descending_seq h draw =
     progression (draw * 10) 20 (delta_pwm_down h) @ progression 20 (end_pwm_down h) (- 2)"

definition ascending_seq :: "hyps \<Rightarrow> int \<Rightarrow> int list" where
  "ascending_seq h draw = progression draw (end_pwm_up h) (delta_pwm_up h)"

section \<open>Spatial-localisation procedure (core/spatial\_test.py)\<close>

text \<open>
  The list \<^verbatim>\<open>uses\<close> of region starts: \<^verbatim>\<open>range(start, end, step)\<close> in pairs mode,
  \<^verbatim>\<open>range(start, end + 1)\<close> otherwise.
\<close>

definition region_starts :: "hyps \<Rightarrow> mode \<Rightarrow> py_error + int list" where
  "region_starts h md =
     (if md = Pairs then py_range (num_motor_start h) (num_motor_end h) (use_motors_step h)
      else py_range (num_motor_start h) (num_motor_end h + 1) 1)"

text \<open>
  The presentation sequence for a non-empty \<^verbatim>\<open>uses\<close>: \<open>q\<close> copies of it, \<open>r\<close> sampled extras
  when \<open>r > 0\<close>, all shuffled, where \<^verbatim>\<open>q, r = divmod(max_samples, count_uses)\<close>.
\<close>

definition spatial_sequence :: "hyps \<Rightarrow> nat list \<Rightarrow> nat list \<Rightarrow> int list \<Rightarrow> py_error + int list" where
  "spatial_sequence h sample_choices shuffle_choices uses =
     (let max_samples = max_counter_samples h;
          count_uses = int (length uses);
          q = max_samples div count_uses;
          r = max_samples mod count_uses;
          seq = concat (replicate (nat q) uses)
      in case (if 0 < r then py_sample sample_choices uses r else Inr []) of
           Inl e \<Rightarrow> Inl e
         | Inr extra \<Rightarrow> Inr (shuffle_with shuffle_choices (seq @ extra)))"

text \<open>
  The motors stimulated and the region recorded for a start motor \<open>m0\<close>. Both branches of
  the source compute \<^verbatim>\<open>true_region = (m0 - start) // step + 1\<close>.
\<close>

definition region_motors :: "mode \<Rightarrow> int \<Rightarrow> int list" where
  "region_motors md m0 = (if md = Pairs then [m0, m0 + 1] else [m0])"

definition true_region :: "hyps \<Rightarrow> mode \<Rightarrow> int \<Rightarrow> py_error + int" where
  "true_region h md m0 =
     (if md = Pairs then
        (if use_motors_step h = 0 then Inl ZeroDivisionError
         else Inr ((m0 - num_motor_start h) div use_motors_step h + 1))
      else
        (if use_motors_step h = 0 then Inl ZeroDivisionError
         else Inr ((m0 - num_motor_start h) div use_motors_step h + 1)))"

text \<open>
  One motor of the stimulus: \<^verbatim>\<open>np.zeros(n_motors)\<close> with \<^verbatim>\<open>spatial_pwm\<close> at the motor when
  it lies in \<open>0 \<dots> n_motors - 1\<close>.
\<close>

definition stimulus :: "hyps \<Rightarrow> int \<Rightarrow> int list outcome" where
  "stimulus h mot =
     (if n_motors h < 0 then Raised ValueError
      else Returned
        (if 0 \<le> mot \<and> mot < n_motors h
         then (replicate (nat (n_motors h)) 0)[nat mot := spatial_pwm h]
         else replicate (nat (n_motors h)) 0))"

fun present :: "hyps \<Rightarrow> int list \<Rightarrow> int worker \<Rightarrow> int worker outcome" where
  "present h [] w = Returned w"
| "present h (mot # motors) w =
     andthen (stimulus h mot) (\<lambda>vals.
     andthen (actuate vals w) (\<lambda>w.
     present h motors (sleep w)))"

text \<open>
  \<^verbatim>\<open>for idx, m0 in enumerate(seq)\<close>, with the list \<^verbatim>\<open>answers\<close> collected so far. Both
  \<^verbatim>\<open>break\<close>s leave the loop with the answers as they are.
\<close>

fun spatial_loop :: "hyps \<Rightarrow> mode \<Rightarrow> int list \<Rightarrow> (int \<times> int) list \<Rightarrow> int worker
                       \<Rightarrow> ((int \<times> int) list \<times> int worker) outcome" where
  "spatial_loop h md [] ans w = Returned (ans, w)"
| "spatial_loop h md (m0 # seq) ans w =
     (if stop w then Returned (ans, w)
      else
        andthen (lift (true_region h md m0)) (\<lambda>region.
        andthen (present h (region_motors md m0) w) (\<lambda>w.
        andthen (reset w) (\<lambda>w.
        andthen (await w) (\<lambda>w.
          case answer w of
            None \<Rightarrow> Returned (ans, w)
          | Some a \<Rightarrow>
              if stop w then Returned (ans, w)
              else spatial_loop h md seq (ans @ [(region, a)]) (sleep w))))))"

record spatial_result =
  sr_answers :: "(int \<times> int) list"
  sr_mode :: mode

text \<open>
  \<^verbatim>\<open>SpatialWorker.run\<close>. The first component is the dictionary emitted with \<^verbatim>\<open>finished\<close>,
  \<open>None\<close> when the run returns without emitting it.
\<close>

definition spatial_run :: "hyps \<Rightarrow> mode \<Rightarrow> nat list \<Rightarrow> nat list \<Rightarrow> int worker
                             \<Rightarrow> (spatial_result option \<times> int worker) outcome" where
  "spatial_run h md sample_choices shuffle_choices w =
     andthen (lift (region_starts h md)) (\<lambda>uses.
       if uses = [] then Returned (None, w)
       else
         andthen (lift (spatial_sequence h sample_choices shuffle_choices uses)) (\<lambda>seq.
         andthen (spatial_loop h md seq [] w) (\<lambda>(ans, w).
           Returned (Some \<lparr>sr_answers = ans, sr_mode = md\<rparr>, w))))"

section \<open>Intensity-discrimination procedure (core/pmpwm\_test.py)\<close>

text \<open>
  The worker with its attributes \<^verbatim>\<open>motors\<close> and \<^verbatim>\<open>results\<close>. \<open>emitted\<close> lists the motors
  for which \<^verbatim>\<open>motorFinished\<close> has been emitted, oldest first.
\<close>

record pmpwm_worker = "int worker" +
  motors :: "int list"
  pm_results :: "(int \<times> (int \<times> int) list) list"
  emitted :: "int list"

definition np_zeros :: "int \<Rightarrow> int list outcome" where
  "np_zeros n = (if n < 0 then Raised ValueError else Returned (replicate (nat n) 0))"

text \<open>
  \<^verbatim>\<open>for step_local, pwm in enumerate(seq, start=1)\<close> for one motor: \<open>Quit\<close> when the body
  returns from \<^verbatim>\<open>run\<close>.
\<close>

fun pmpwm_steps :: "hyps \<Rightarrow> int \<Rightarrow> int list \<Rightarrow> pmpwm_worker \<Rightarrow> pmpwm_worker flow outcome" where
  "pmpwm_steps h motor [] w = Returned (Next w)"
| "pmpwm_steps h motor (pwm # seq) w =
     andthen (np_zeros (vb_n_motors (vibro w))) (\<lambda>zeros.
     andthen (lift (py_setitem zeros motor pwm)) (\<lambda>arr.
     andthen (actuate arr w) (\<lambda>w.
     andthen (reset (sleep w)) (\<lambda>w.
     andthen (await w) (\<lambda>w.
       if stop w then andthen (reset w) (\<lambda>w. Returned (Quit w))
       else
         andthen (lift (py_index (pmpwm_pwm_values h) pwm)) (\<lambda>i.
           case answer w of
             None \<Rightarrow> Raised TypeError
           | Some a \<Rightarrow>
               pmpwm_steps h motor seq
                 (sleep (w\<lparr>pm_results :=
                    upd_default motor [] (\<lambda>ts. ts @ [(int i + 1, a)]) (pm_results w)\<rparr>))))))))"

text \<open>
  \<^verbatim>\<open>for motor in self.motors\<close>: the shuffled schedule, the reset of the motor's entry, the
  presentations and the signal \<^verbatim>\<open>motorFinished\<close>.
\<close>

fun pmpwm_motors :: "hyps \<Rightarrow> (int \<Rightarrow> nat list) \<Rightarrow> int list \<Rightarrow> pmpwm_worker
                       \<Rightarrow> pmpwm_worker flow outcome" where
  "pmpwm_motors h seq_choices [] w = Returned (Next w)"
| "pmpwm_motors h seq_choices (motor # ms) w =
     andthen
       (pmpwm_steps h motor
          (shuffle_with (seq_choices motor)
             (concat (replicate (nat (pmpwm_repeats h)) (pmpwm_pwm_values h))))
          (w\<lparr>pm_results := dict_set motor [] (pm_results w)\<rparr>))
       (\<lambda>r. case r of
               Quit w \<Rightarrow> Returned (Quit w)
             | Next w \<Rightarrow> pmpwm_motors h seq_choices ms (w\<lparr>emitted := emitted w @ [motor]\<rparr>))"

text \<open>The post-processing of \<^verbatim>\<open>run\<close>: the dictionary emitted with \<^verbatim>\<open>finished\<close>.\<close>

record pmpwm_result =
  pr_answers :: "(int \<times> int) list"
  pr_accuracy :: rat
  pr_pwm_values :: "int list"
  pr_repeats :: int
  pr_confusion :: "int list list"
  pr_per_level_accuracy :: "rat list"
  pr_motors :: "int list"

text \<open>\<^verbatim>\<open>cm[t-1, p-1] += 1\<close> on a square matrix, for each pair in turn.\<close>

fun count_pairs :: "int list list \<Rightarrow> (int \<times> int) list \<Rightarrow> py_error + int list list" where
  "count_pairs cm [] = Inr cm"
| "count_pairs cm ((t, p) # tps) =
     (case np_index (length cm) (t - 1) of
        Inl e \<Rightarrow> Inl e
      | Inr r \<Rightarrow>
          (case np_index (length cm) (p - 1) of
             Inl e \<Rightarrow> Inl e
           | Inr c \<Rightarrow> count_pairs (cm[r := (cm ! r)[c := cm ! r ! c + 1]]) tps))"

definition confusion_matrix :: "nat \<Rightarrow> (int \<times> int) list \<Rightarrow> py_error + int list list" where
  "confusion_matrix levels tps = count_pairs (replicate levels (replicate levels 0)) tps"

definition pmpwm_result_of :: "hyps \<Rightarrow> pmpwm_worker \<Rightarrow> pmpwm_result outcome" where
  "pmpwm_result_of h w =
     (let ans = concat (map snd (pm_results w));
          n_correct = length (filter (\<lambda>(t, p). t = p) ans)
      in andthen (lift (confusion_matrix (length (pmpwm_pwm_values h)) ans)) (\<lambda>cm.
           if ans = [] then Raised ZeroDivisionError
           else Returned
             \<lparr>pr_answers = ans,
              pr_accuracy = of_nat n_correct / of_nat (length ans),
              pr_pwm_values = pmpwm_pwm_values h,
              pr_repeats = pmpwm_repeats h,
              pr_confusion = cm,
              pr_per_level_accuracy =
                map (\<lambda>i. of_int (cm ! i ! i) / of_int (max 1 (sum_list (cm ! i))))
                  [0..<length cm],
              pr_motors = motors w\<rparr>))"

text \<open>
  \<^verbatim>\<open>PMPWMWorker.run\<close>. The first component is the dictionary emitted with \<^verbatim>\<open>finished\<close>,
  \<open>None\<close> when the run returns without emitting it.
\<close>

definition pmpwm_run :: "hyps \<Rightarrow> (int \<Rightarrow> nat list) \<Rightarrow> pmpwm_worker
                           \<Rightarrow> (pmpwm_result option \<times> pmpwm_worker) outcome" where
  "pmpwm_run h seq_choices w =
     andthen (pmpwm_motors h seq_choices (motors w) w) (\<lambda>r.
       case r of
         Quit w \<Rightarrow> Returned (None, w)
       | Next w \<Rightarrow>
           andthen (end_indicator w) (\<lambda>w.
           andthen (pmpwm_result_of h w) (\<lambda>res.
           Returned (Some res, w))))"

text \<open>
  The schedule as the configuration dialog stores it (\<^verbatim>\<open>get_hyps\<close> of
  gui/pmpwm\_hyperparams\_dialog.py): the parsed numbers without duplicates and sorted;
  the previous schedule when the text does not parse (\<open>None\<close>) or holds no number.
\<close>

definition get_hyps_pwms :: "int list option \<Rightarrow> int list \<Rightarrow> int list" where
  "get_hyps_pwms parsed previous =
     (case parsed of
        None \<Rightarrow> previous
      | Some pwms \<Rightarrow>
          (if sorted_list_of_set (set pwms) = [] then previous
           else sorted_list_of_set (set pwms)))"

section \<open>Resumable runs of the discrimination test (gui/main\_window.py)\<close>

text \<open>
  The attributes of the main window that the discrimination test uses. The port object is
  shared with the worker of the moment.
\<close>

record main_window =
  mw_vibro :: vibrobox
  mw_hyps :: hyps
  motors_all :: "int list"
  motors_completed :: "int set"
  results_pmpwm :: "(int \<times> (int \<times> int) list) list"
  pending_queue :: "int list"

text \<open>
  \<^verbatim>\<open>PMPWMWorker(self.vibro, h, motors_list)\<close>, with the script of what the control context
  will do during its run.
\<close>

definition new_worker :: "vibrobox \<Rightarrow> int list \<Rightarrow> int event list \<Rightarrow> pmpwm_worker" where
  "new_worker vb motors_list events =
     \<lparr>vibro = vb, stop = False, answer = None, script = events,
      motors = motors_list, pm_results = [], emitted = []\<rparr>"

text \<open>
  The slot \<^verbatim>\<open>_on_motor_done\<close>: the motor is completed and its answers are taken over from
  the worker.
\<close>

definition on_motor_done :: "pmpwm_worker \<Rightarrow> int \<Rightarrow> main_window \<Rightarrow> main_window outcome" where
  "on_motor_done w motor mw =
     (case map_of (pm_results w) motor of
        None \<Rightarrow> Raised KeyError
      | Some ts \<Rightarrow>
          Returned (mw\<lparr>motors_completed := insert motor (motors_completed mw),
                       results_pmpwm := dict_set motor ts (results_pmpwm mw)\<rparr>))"

fun deliver :: "pmpwm_worker \<Rightarrow> int list \<Rightarrow> main_window \<Rightarrow> main_window outcome" where
  "deliver w [] mw = Returned mw"
| "deliver w (motor # ms) mw = andthen (on_motor_done w motor mw) (deliver w ms)"

text \<open>
  \<^verbatim>\<open>_launch_pmpwm_worker\<close> and the run it starts, up to the end of that run: the worker
  runs, the slot handles each \<^verbatim>\<open>motorFinished\<close>, and the port is the window's again.
  The second component tells whether \<^verbatim>\<open>finished\<close> was emitted.
\<close>

definition launch_pmpwm_worker :: "(int \<Rightarrow> nat list) \<Rightarrow> int event list \<Rightarrow> int list \<Rightarrow> main_window
                                     \<Rightarrow> (main_window \<times> bool) outcome" where
  "launch_pmpwm_worker seq_choices events motors_list mw =
     andthen (pmpwm_run (mw_hyps mw) seq_choices (new_worker (mw_vibro mw) motors_list events))
       (\<lambda>(res, w).
     andthen (deliver w (emitted w) mw) (\<lambda>mw.
     Returned (mw\<lparr>mw_vibro := vibro w\<rparr>, res \<noteq> None)))"

text \<open>
  \<^verbatim>\<open>_run_pmpwm_for_motor\<close>, steps 2 and 3: the motor's old data are removed and the motors
  still open are queued. Step 1 stops the worker of the moment, whose run has then ended;
  step 4 is the launch.
\<close>

definition forget_motor :: "int \<Rightarrow> main_window \<Rightarrow> main_window" where
  "forget_motor motor mw =
     mw\<lparr>motors_completed := motors_completed mw - {motor},
        results_pmpwm := dict_pop motor (results_pmpwm mw),
        pending_queue :=
          filter (\<lambda>m. m \<notin> motors_completed mw - {motor} \<and> m \<noteq> motor) (motors_all mw)\<rparr>"

definition run_pmpwm_for_motor :: "(int \<Rightarrow> nat list) \<Rightarrow> int event list \<Rightarrow> int \<Rightarrow> main_window
                                     \<Rightarrow> (main_window \<times> bool) outcome" where
  "run_pmpwm_for_motor seq_choices events motor mw =
     launch_pmpwm_worker seq_choices events [motor] (forget_motor motor mw)"

text \<open>The motor's entry of \<^verbatim>\<open>per_motor_acc\<close> in \<^verbatim>\<open>_finish_pmpwm\<close>.\<close>

definition per_motor_accuracy :: "main_window \<Rightarrow> int \<Rightarrow> rat" where
  "per_motor_accuracy mw m =
     (case map_of (results_pmpwm mw) m of
        None \<Rightarrow> 0
      | Some local \<Rightarrow>
          if local = [] then 0
          else of_nat (length (filter (\<lambda>(t, p). t = p) local)) / of_nat (length local))"

text \<open>
  Notions for stating the properties: the state a loop ends in, and the trials on record
  for a motor (none when the motor has no entry).
\<close>

fun state_of :: "'a flow \<Rightarrow> 'a" where
  "state_of (Next s) = s"
| "state_of (Quit s) = s"

definition trials_of :: "int \<Rightarrow> pmpwm_worker \<Rightarrow> (int \<times> int) list" where
  "trials_of motor w = (case map_of (pm_results w) motor of None \<Rightarrow> [] | Some ts \<Rightarrow> ts)"

definition recorded :: "pmpwm_worker flow outcome \<Rightarrow> int \<Rightarrow> (int \<times> int) list" where
  "recorded out motor = (case out of Returned r \<Rightarrow> trials_of motor (state_of r) | _ \<Rightarrow> [])"

section \<open>Properties of the spatial outcome reducer\<close>

subsection \<open>Dictionaries with defaults\<close>

lemma map_of_upd_default:
  "map_of (upd_default k d f kvs) =
     (map_of kvs)(k \<mapsto> f (case map_of kvs k of None \<Rightarrow> d | Some v \<Rightarrow> v))"
  by (induction kvs) (auto simp: fun_eq_iff)

lemma keys_upd_default: "fst ` set (upd_default k d f kvs) = insert k (fst ` set kvs)"
proof (induction kvs)
  case Nil
  show ?case by simp
next
  case (Cons kv kvs)
  obtain k' v where kv: "kv = (k', v)" by (cases kv)
  show ?case
  proof (cases "k' = k")
    case True
    with kv show ?thesis by auto
  next
    case False
    with kv Cons show ?thesis by (simp add: insert_commute)
  qed
qed

lemma distinct_upd_default:
  "distinct (map fst kvs) \<Longrightarrow> distinct (map fst (upd_default k d f kvs))"
  by (induction kvs) (auto simp: keys_upd_default)

lemma sum_upd_default:
  assumes "\<And>v. g (f v) = g v + c" and "g d = (0::nat)"
  shows "sum_list (map (\<lambda>kv. g (snd kv)) (upd_default k d f kvs))
         = sum_list (map (\<lambda>kv. g (snd kv)) kvs) + c"
  using assms by (induction kvs) auto

lemma total_record_answer: "total (record_answer t p st) = total st + 1"
  by (simp add: record_answer_def)

lemma correct_record_answer:
  "correct (record_answer t p st) = correct st + (if t = p then 1 else 0)"
  by (simp add: record_answer_def)

lemma foldl_tally_snoc:
  "foldl tally_answer [] (xs @ [x]) =
     upd_default (fst x) empty_tally (record_answer (fst x) (snd x)) (foldl tally_answer [] xs)"
proof -
  have "foldl tally_answer [] (xs @ [x]) = tally_answer (foldl tally_answer [] xs) x" by simp
  also have "\<dots> = upd_default (fst x) empty_tally (record_answer (fst x) (snd x))
                      (foldl tally_answer [] xs)"
    by (rule tally_answer_def)
  finally show ?thesis .
qed

lemma foldl_tally_keys:
  "fst ` set (foldl tally_answer [] ans) = fst ` set ans"
proof (induction ans rule: rev_induct)
  case Nil
  show ?case by simp
next
  case (snoc x xs)
  then show ?case unfolding foldl_tally_snoc keys_upd_default by simp
qed

lemma foldl_tally_distinct: "distinct (map fst (foldl tally_answer [] ans))"
proof (induction ans rule: rev_induct)
  case Nil
  show ?case by simp
next
  case (snoc x xs)
  then show ?case unfolding foldl_tally_snoc by (rule distinct_upd_default)
qed

lemma foldl_tally_total:
  "sum_list (map (\<lambda>kv. total (snd kv)) (foldl tally_answer [] ans)) = length ans"
proof (induction ans rule: rev_induct)
  case Nil
  show ?case by simp
next
  case (snoc x xs)
  have "sum_list (map (\<lambda>kv. total (snd kv))
          (upd_default (fst x) empty_tally (record_answer (fst x) (snd x))
             (foldl tally_answer [] xs)))
        = sum_list (map (\<lambda>kv. total (snd kv)) (foldl tally_answer [] xs)) + 1"
    by (rule sum_upd_default) (simp_all add: total_record_answer empty_tally_def)
  with snoc show ?case unfolding foldl_tally_snoc by simp
qed

lemma foldl_tally_correct:
  "sum_list (map (\<lambda>kv. correct (snd kv)) (foldl tally_answer [] ans))
     = length (filter (\<lambda>tp. fst tp = snd tp) ans)"
proof (induction ans rule: rev_induct)
  case Nil
  show ?case by simp
next
  case (snoc x xs)
  have "sum_list (map (\<lambda>kv. correct (snd kv))
          (upd_default (fst x) empty_tally (record_answer (fst x) (snd x))
             (foldl tally_answer [] xs)))
        = sum_list (map (\<lambda>kv. correct (snd kv)) (foldl tally_answer [] xs))
          + (if fst x = snd x then 1 else 0)"
    by (rule sum_upd_default) (simp_all add: correct_record_answer empty_tally_def)
  with snoc show ?case unfolding foldl_tally_snoc by simp
qed

lemma foldl_tally_region:
  "map_of (foldl tally_answer [] ans) r = Some st \<Longrightarrow>
     total st = length (filter (\<lambda>tp. fst tp = r) ans) \<and>
     correct st = length (filter (\<lambda>tp. fst tp = r \<and> snd tp = r) ans)"
proof (induction ans arbitrary: st rule: rev_induct)
  case Nil
  then show ?case by simp
next
  case (snoc x xs)
  let ?old = "foldl tally_answer [] xs"
  have step: "map_of (foldl tally_answer [] (xs @ [x])) =
      (map_of ?old)(fst x \<mapsto> record_answer (fst x) (snd x)
         (case map_of ?old (fst x) of None \<Rightarrow> empty_tally | Some v \<Rightarrow> v))"
    unfolding foldl_tally_snoc by (rule map_of_upd_default)
  show ?case
  proof (cases "fst x = r")
    case False
    with snoc.prems step have "map_of ?old r = Some st" by simp
    with snoc.IH False show ?thesis by simp
  next
    case True
    show ?thesis
    proof (cases "map_of ?old r")
      case None
      then have "r \<notin> fst ` set xs"
        using foldl_tally_keys[of xs] by (simp add: map_of_eq_None_iff)
      then have "filter (\<lambda>tp. fst tp = r) xs = []" "filter (\<lambda>tp. fst tp = r \<and> snd tp = r) xs = []"
        by (auto simp: filter_empty_conv)
      moreover from None True snoc.prems step
      have "st = record_answer r (snd x) empty_tally" by simp
      ultimately show ?thesis using True
        by (simp add: total_record_answer correct_record_answer empty_tally_def)
    next
      case (Some st0)
      with True snoc.prems step have "st = record_answer r (snd x) st0" by simp
      with snoc.IH[OF Some] True show ?thesis
        by (simp add: total_record_answer correct_record_answer)
    qed
  qed
qed


lemma finish_region_fields:
  "total (finish_region st) = total st" "correct (finish_region st) = correct st"
  "accuracy (finish_region st) = of_nat (correct st) / of_nat (max 1 (total st))"
  by (simp_all add: finish_region_def)

lemma regions_analyse_spatial:
  "regions (analyse_spatial ans) =
     map (\<lambda>kv. (fst kv, finish_region (snd kv))) (foldl tally_answer [] ans)"
  by (simp add: analyse_spatial_def Let_def case_prod_beta)

lemma mean_accuracy_analyse_spatial:
  "mean_accuracy (analyse_spatial ans) =
     of_nat (length (filter (\<lambda>tp. fst tp = snd tp) ans)) / of_nat (max 1 (length ans))"
proof -
  let ?stats = "foldl tally_answer [] ans"
  have c: "sum_list (map (\<lambda>(r, st). correct st) (map (\<lambda>(r, st). (r, finish_region st)) ?stats))
           = sum_list (map (\<lambda>kv. correct (snd kv)) ?stats)"
    by (simp add: comp_def case_prod_beta finish_region_fields)
  have t: "sum_list (map (\<lambda>(r, st). total st) (map (\<lambda>(r, st). (r, finish_region st)) ?stats))
           = sum_list (map (\<lambda>kv. total (snd kv)) ?stats)"
    by (simp add: comp_def case_prod_beta finish_region_fields)
  show ?thesis
    unfolding analyse_spatial_def Let_def
    by (simp only: spatial_summary.simps c t foldl_tally_correct foldl_tally_total)
qed

text \<open>
  Claim C8. For every list of \<open>(true_region, response_region)\<close> pairs the overall mean
  accuracy of the reducer is the number of correct answers divided by the number of trials
  (and 0 for the empty list, where the divisor is clamped to 1); the regions reported are
  exactly the true regions that occur, and each region's accuracy is its correct count
  divided by its trial count, which is positive.
\<close>

theorem analyse_spatial_accuracy:
  "(ans \<noteq> [] \<longrightarrow>
      mean_accuracy (analyse_spatial ans) =
        of_nat (length (filter (\<lambda>tp. fst tp = snd tp) ans)) / of_nat (length ans))
   \<and> (ans = [] \<longrightarrow> mean_accuracy (analyse_spatial ans) = 0)
   \<and> fst ` set (regions (analyse_spatial ans)) = fst ` set ans
   \<and> (\<forall>r st. (r, st) \<in> set (regions (analyse_spatial ans)) \<longrightarrow>
         0 < length (filter (\<lambda>tp. fst tp = r) ans)
         \<and> total st = length (filter (\<lambda>tp. fst tp = r) ans)
         \<and> correct st = length (filter (\<lambda>tp. fst tp = r \<and> snd tp = r) ans)
         \<and> accuracy st =
             of_nat (length (filter (\<lambda>tp. fst tp = r \<and> snd tp = r) ans))
             / of_nat (length (filter (\<lambda>tp. fst tp = r) ans)))"
proof (intro conjI allI impI)
  assume "ans \<noteq> []"
  then have "max 1 (length ans) = length ans" by (cases ans) simp_all
  then show "mean_accuracy (analyse_spatial ans) =
        of_nat (length (filter (\<lambda>tp. fst tp = snd tp) ans)) / of_nat (length ans)"
    by (simp add: mean_accuracy_analyse_spatial)
next
  assume "ans = []"
  then show "mean_accuracy (analyse_spatial ans) = 0"
    by (simp add: mean_accuracy_analyse_spatial)
next
  show "fst ` set (regions (analyse_spatial ans)) = fst ` set ans"
    by (simp add: regions_analyse_spatial image_image foldl_tally_keys)
next
  fix r st
  assume mem: "(r, st) \<in> set (regions (analyse_spatial ans))"
  then obtain st0 where st0: "(r, st0) \<in> set (foldl tally_answer [] ans)"
    and st: "st = finish_region st0"
    by (auto simp: regions_analyse_spatial)
  from st0 have look: "map_of (foldl tally_answer [] ans) r = Some st0"
    by (simp add: foldl_tally_distinct)
  note cnt = foldl_tally_region[OF look]
  from st0 have "r \<in> fst ` set ans"
    using foldl_tally_keys[of ans] by force
  then obtain tp where "tp \<in> set ans" "fst tp = r" by auto
  then have "filter (\<lambda>tp. fst tp = r) ans \<noteq> []"
    by (auto simp: filter_empty_conv)
  then show pos: "0 < length (filter (\<lambda>tp. fst tp = r) ans)" by simp
  show "total st = length (filter (\<lambda>tp. fst tp = r) ans)"
    using cnt st by (simp add: finish_region_fields)
  show "correct st = length (filter (\<lambda>tp. fst tp = r \<and> snd tp = r) ans)"
    using cnt st by (simp add: finish_region_fields)
  from pos have "max 1 (length (filter (\<lambda>tp. fst tp = r) ans))
                 = length (filter (\<lambda>tp. fst tp = r) ans)"
    by (cases "filter (\<lambda>tp. fst tp = r) ans") simp_all
  then show "accuracy st =
             of_nat (length (filter (\<lambda>tp. fst tp = r \<and> snd tp = r) ans))
             / of_nat (length (filter (\<lambda>tp. fst tp = r) ans))"
    using cnt st by (simp add: finish_region_fields)
qed

lemma ex_regions:
  "regions (analyse_spatial [(1, 1), (1, 1), (1, 1), (2, 3)]) =
     [(1, \<lparr>total = 3, correct = 3, answers = [(1, 3)], accuracy = 1\<rparr>),
      (2, \<lparr>total = 1, correct = 0, answers = [(3, 1)], accuracy = 0\<rparr>)]"
  by (simp add: analyse_spatial_def tally_answer_def record_answer_def empty_tally_def
        finish_region_def)

theorem analyse_spatial_accuracy_witness:
  "[(1, 1), (1, 1), (1, 1), (2, 3)] \<noteq> ([] :: (int \<times> int) list)
   \<and> mean_accuracy (analyse_spatial [(1, 1), (1, 1), (1, 1), (2, 3)]) = 3 / 4
   \<and> (1, \<lparr>total = 3, correct = 3, answers = [(1, 3)], accuracy = 1\<rparr>)
        \<in> set (regions (analyse_spatial [(1, 1), (1, 1), (1, 1), (2, 3)]))"
  using analyse_spatial_accuracy[of "[(1, 1), (1, 1), (1, 1), (2, 3)]"]
  by (simp add: ex_regions)

text \<open>
  With unequal trial counts the trial-weighted mean differs from the arithmetic mean of the
  per-region accuracies: three correct trials in region 1 and one wrong trial in region 2.
\<close>

lemma analyse_spatial_not_macro_average:
  "mean_accuracy (analyse_spatial [(1, 1), (1, 1), (1, 1), (2, 3)]) = 3 / 4
   \<and> sum_list (map (\<lambda>kv. accuracy (snd kv)) (regions (analyse_spatial [(1, 1), (1, 1), (1, 1), (2, 3)])))
       / of_nat (length (regions (analyse_spatial [(1, 1), (1, 1), (1, 1), (2, 3)]))) = 1 / 2"
  by (simp add: ex_regions mean_accuracy_analyse_spatial)

section \<open>Properties of the confusion-matrix analyser\<close>

subsection \<open>Grouping of low-accuracy levels\<close>

















subsection \<open>The recommendation function against the reference algorithm\<close>








subsection \<open>Totality of the analyser and rows without trials\<close>









lemma sum_list_zeros: "\<forall>c\<in>set row. c = (0::int) \<Longrightarrow> sum_list row = 0"
  by (induction row) simp_all



text \<open>
  Two computations of the analyser, as the floats and the int64 sums give them: 3 hits in
  160 trials are reported as the accuracy 0.0187 (the float quotient lies below 0.01875),
  and a row whose counts add up to \<open>2 ^ 63\<close> has the wrapped, negative sum clipped to 1,
  so that its counts are reported undivided.
\<close>

lemma accuracy_3_of_160:
  "round4 (float_div 3 160) = to_double (187 / 10000)"
  by code_simp

lemma normalise_row_wraps:
  "normalise_row [2 ^ 62, 2 ^ 62] = [2 ^ 62, 2 ^ 62]"
  by code_simp




section \<open>Port and worker operations\<close>

lemma andthen_Returned:
  assumes "andthen x f = Returned y"
  obtains a where "x = Returned a" and "f a = Returned y"
  using assms by (cases x) simp_all

lemma lift_Returned: "lift s = Returned a \<longleftrightarrow> s = Inr a"
  by (cases s) simp_all

lemma set_pwm_values_Returned:
  assumes "set_pwm_values arr vb = Returned vb'"
  shows "vb' = vb\<lparr>vb_written := vb_written vb @ [arr]\<rparr> \<and> vb_connected vb
         \<and> int (length arr) = vb_n_motors vb"
  using assms by (auto simp: set_pwm_values_def write_array_def split: if_splits)

lemma actuate_Returned:
  assumes "actuate arr w = Returned w'"
  shows "w' = w\<lparr>vibro := (vibro w)\<lparr>vb_written := vb_written (vibro w) @ [arr]\<rparr>\<rparr>"
  using assms
  by (auto simp: actuate_def elim!: andthen_Returned dest!: set_pwm_values_Returned)

lemma reset_Returned:
  assumes "reset w = Returned w'"
  shows "w' = w\<lparr>vibro := (vibro w)\<lparr>vb_written :=
           vb_written (vibro w) @ [replicate (nat (vb_n_motors (vibro w))) 0]\<rparr>\<rparr>"
  using assms
  by (auto simp: reset_def reset_pwm_values_def elim!: andthen_Returned
        dest!: set_pwm_values_Returned)

lemma motors_off_reset: "reset w = Returned w' \<Longrightarrow> motors_off (vibro w')"
  by (drule reset_Returned) (simp add: motors_off_def list_all_iff)

lemma await_Returned:
  assumes "await w = Returned w'"
  shows "vibro w' = vibro w \<and> worker.more w' = worker.more w
         \<and> (stop w \<longrightarrow> stop w') \<and> (\<not> stop w' \<longrightarrow> answer w' \<noteq> None)"
  using assms by (auto simp: await_def split: if_splits list.splits event.splits)

lemma sleep_fields [simp]:
  "vibro (sleep w) = vibro w" "answer (sleep w) = answer w"
  "worker.more (sleep w) = worker.more w"
  by (simp_all add: sleep_def split: list.splits event.splits)

lemma sleep_pmpwm_fields [simp]:
  "pm_results (sleep w) = pm_results w" "emitted (sleep w) = emitted w"
  "motors (sleep w) = motors w"
  by (simp_all add: sleep_def split: list.splits event.splits)

lemma await_pmpwm_fields:
  assumes "await w = Returned w'"
  shows "pm_results w' = pm_results w \<and> emitted w' = emitted w \<and> motors w' = motors w"
  using assms by (auto simp: await_def split: if_splits list.splits event.splits)

section \<open>Properties of the threshold-finding procedure\<close>

subsection \<open>One answered stimulus\<close>

lemma py_setitem_ok:
  "- int (length xs) \<le> i \<Longrightarrow> i < int (length xs) \<Longrightarrow>
     \<exists>ys. py_setitem xs i v = Inr ys \<and> length ys = length xs"
  by (auto simp: py_setitem_def)

text \<open>One answered stimulus: the loop body up to the evaluation of the answer.\<close>

lemma stimulus_answered:
  assumes rdy: "ready h m w" and len: "length arr = nat (n_motors h)"
    and run: "\<not> stop w" and scr: "script w = Answer a # es"
  shows "\<exists>arr' w'. length arr' = nat (n_motors h) \<and> ready h m w' \<and> \<not> stop w'
           \<and> script w' = es \<and> answer w' = Some a \<and> motors_off (vibro w')
           \<and> (\<forall>K. andthen (lift (py_setitem arr m v)) (\<lambda>pwm_arr.
                    andthen (actuate pwm_arr w) (\<lambda>w.
                    andthen (reset (sleep w)) (\<lambda>w.
                    andthen (await w) (K pwm_arr)))) = K arr' w')"
proof -
  from rdy len have "- int (length arr) \<le> m" "m < int (length arr)"
    by (simp_all add: ready_def)
  from py_setitem_ok[OF this] obtain arr' where
    set: "py_setitem arr m v = Inr arr'" and len': "length arr' = length arr" by blast
  define w' where "w' = w\<lparr>vibro := (vibro w)\<lparr>vb_written :=
       vb_written (vibro w) @ [arr', replicate (nat (n_motors h)) 0]\<rparr>,
       answer := Some a, script := es\<rparr>"
  have n: "0 \<le> n_motors h" using rdy by (simp add: ready_def)
  have "andthen (lift (py_setitem arr m v)) (\<lambda>pwm_arr.
                    andthen (actuate pwm_arr w) (\<lambda>w.
                    andthen (reset (sleep w)) (\<lambda>w.
                    andthen (await w) (K pwm_arr)))) = K arr' w'" for K
    using rdy len len' run scr n
    by (simp add: set ready_def actuate_def set_pwm_values_def write_array_def sleep_def
          reset_def reset_pwm_values_def await_def w'_def)
  moreover have "ready h m w'" "\<not> stop w'" "script w' = es" "answer w' = Some a"
    using rdy run by (simp_all add: w'_def ready_def)
  moreover have "motors_off (vibro w')"
    by (simp add: w'_def motors_off_def list_all_iff)
  ultimately show ?thesis using len len' by metis
qed


lemma probe_loop_answered:
  assumes rdy: "ready h m w" and len: "length arr = nat (n_motors h)"
    and run: "\<not> stop w" and scr: "script w = Answer a # es"
  shows "\<exists>arr' w'. length arr' = nat (n_motors h) \<and> ready h m w' \<and> \<not> stop w'
           \<and> script w' = es \<and> answer w' = Some a \<and> motors_off (vibro w')
           \<and> probe_loop h p m arr (v # seq) w =
               (if a = p then Returned (v + \<bar>if p = No then delta_pwm_down h else 0\<bar>, w')
                else probe_loop h p m arr' seq (sleep w'))"
proof -
  from stimulus_answered[OF rdy len run scr, of v] obtain arr' w' where
    props: "length arr' = nat (n_motors h)" "ready h m w'" "\<not> stop w'" "script w' = es"
      "answer w' = Some a" "motors_off (vibro w')"
    and body: "\<And>K :: int list \<Rightarrow> yn worker \<Rightarrow> (int \<times> yn worker) outcome.
                  andthen (lift (py_setitem arr m v)) (\<lambda>pwm_arr.
                    andthen (actuate pwm_arr w) (\<lambda>w.
                    andthen (reset (sleep w)) (\<lambda>w.
                    andthen (await w) (K pwm_arr)))) = K arr' w'"
    by blast
  have "probe_loop h p m arr (v # seq) w =
          (if a = p then Returned (v + \<bar>if p = No then delta_pwm_down h else 0\<bar>, w')
           else probe_loop h p m arr' seq (sleep w'))"
  proof -
    have "probe_loop h p m arr (v # seq) w =
            (\<lambda>pwm_arr w. if stop w then andthen (reset w) (\<lambda>w. Returned (- 1, w))
               else if answer w = Some p then
                 Returned (v + \<bar>if p = No then delta_pwm_down h else 0\<bar>, w)
               else probe_loop h p m pwm_arr seq (sleep w)) arr' w'"
      using run
      by (simp only: probe_loop.simps if_False
            body[of "\<lambda>pwm_arr w. if stop w then andthen (reset w) (\<lambda>w. Returned (- 1, w))
               else if answer w = Some p then
                 Returned (v + \<bar>if p = No then delta_pwm_down h else 0\<bar>, w)
               else probe_loop h p m pwm_arr seq (sleep w)"])
    then show ?thesis using props by auto
  qed
  with props show ?thesis by blast
qed

lemma sleep_answer_next: "script w = Answer a # es \<Longrightarrow> sleep w = w"
  by (simp add: sleep_def)

lemma sleep_script_end: "script w = [] \<Longrightarrow> sleep w = w"
  by (simp add: sleep_def)

subsection \<open>The probe on a script of answers\<close>

lemma probe_loop_first:
  assumes "ready h m w" and "length arr = nat (n_motors h)" and "\<not> stop w"
    and "script w = map Answer as @ rest"
    and "k < length seq" and "k < length as" and "as ! k = p" and "\<forall>j<k. as ! j \<noteq> p"
  shows "\<exists>w'. probe_loop h p m arr seq w =
               Returned (seq ! k + \<bar>if p = No then delta_pwm_down h else 0\<bar>, w')
             \<and> \<not> stop w' \<and> motors_off (vibro w') \<and> script w' = map Answer (drop (Suc k) as) @ rest"
  using assms
proof (induction seq arbitrary: k as w arr)
  case Nil
  then show ?case by simp
next
  case (Cons v seq)
  from Cons.prems(6) obtain a as' where as: "as = a # as'" by (cases as) auto
  with Cons.prems(4) have scr: "script w = Answer a # (map Answer as' @ rest)" by simp
  from probe_loop_answered[OF Cons.prems(1,2,3) scr, of p v seq] obtain arr' w' where
    props: "length arr' = nat (n_motors h)" "ready h m w'" "\<not> stop w'"
      "script w' = map Answer as' @ rest" "motors_off (vibro w')"
    and step: "probe_loop h p m arr (v # seq) w =
               (if a = p then Returned (v + \<bar>if p = No then delta_pwm_down h else 0\<bar>, w')
                else probe_loop h p m arr' seq (sleep w'))"
    by blast
  show ?case
  proof (cases k)
    case 0
    with Cons.prems(7) as have "a = p" by simp
    with step props 0 as show ?thesis by auto
  next
    case (Suc k')
    with Cons.prems(8) as have ne: "a \<noteq> p" by auto
    from Suc Cons.prems as have k': "k' < length seq" "k' < length as'" "as' ! k' = p"
      "\<forall>j<k'. as' ! j \<noteq> p" by auto
    from k'(2) obtain b bs where "as' = b # bs" by (cases as') auto
    with props(4) have "sleep w' = w'" by (simp add: sleep_def)
    with step ne have "probe_loop h p m arr (v # seq) w = probe_loop h p m arr' seq w'" by simp
    moreover from Cons.IH[OF props(2) props(1) props(3) props(4) k']
    obtain w'' where "probe_loop h p m arr' seq w' =
               Returned (seq ! k' + \<bar>if p = No then delta_pwm_down h else 0\<bar>, w'')"
      "\<not> stop w''" "motors_off (vibro w'')" "script w'' = map Answer (drop (Suc k') as') @ rest"
      by blast
    ultimately show ?thesis using Suc as by auto
  qed
qed

lemma probe_loop_exhausted:
  assumes "ready h m w" and "length arr = nat (n_motors h)" and "\<not> stop w"
    and "script w = map Answer as @ rest"
    and "length seq \<le> length as" and "\<forall>j<length seq. as ! j \<noteq> p"
  shows "\<exists>w'. probe_loop h p m arr seq w =
               Returned (if p = No then \<bar>delta_pwm_down h\<bar> else end_pwm_up h, w')"
  using assms
proof (induction seq arbitrary: as w arr)
  case Nil
  then show ?case by simp
next
  case (Cons v seq)
  from Cons.prems(5) obtain a as' where as: "as = a # as'" by (cases as) auto
  with Cons.prems(4) have scr: "script w = Answer a # (map Answer as' @ rest)" by simp
  from probe_loop_answered[OF Cons.prems(1,2,3) scr, of p v seq] obtain arr' w' where
    props: "length arr' = nat (n_motors h)" "ready h m w'" "\<not> stop w'"
      "script w' = map Answer as' @ rest"
    and step: "probe_loop h p m arr (v # seq) w =
               (if a = p then Returned (v + \<bar>if p = No then delta_pwm_down h else 0\<bar>, w')
                else probe_loop h p m arr' seq (sleep w'))"
    by blast
  from Cons.prems(6) as have ne: "a \<noteq> p" by auto
  from Cons.prems as have rest': "length seq \<le> length as'" "\<forall>j<length seq. as' ! j \<noteq> p"
    by auto
  show ?case
  proof (cases seq)
    case Nil
    with step ne show ?thesis by simp
  next
    case (Cons v' seq')
    with rest'(1) obtain b bs where "as' = b # bs" by (cases as') auto
    with props(4) have "sleep w' = w'" by (simp add: sleep_def)
    with step ne have "probe_loop h p m arr (v # seq) w = probe_loop h p m arr' seq w'" by simp
    with Cons.IH[OF props(2) props(1) props(3) props(4) rest'] show ?thesis by simp
  qed
qed


lemma downstream_probe:
  "delta_pwm_down h \<noteq> 0 \<Longrightarrow>
     downstream h draw m w = probe h (descending_seq h draw) m No w"
  by (simp add: downstream_def np_arange_def descending_seq_def)

lemma upstream_probe:
  "delta_pwm_up h \<noteq> 0 \<Longrightarrow>
     upstream h draw m w = probe h (ascending_seq h draw) m Yes w"
  by (simp add: upstream_def np_arange_def ascending_seq_def)

lemma yn_other: "(a \<noteq> No) = (a = Yes)" "(a \<noteq> Yes) = (a = No)"
  by (cases a; simp)+

text \<open>
  Claim C1. Take a pass on a motor the port accepts, with no cancellation pending and the
  patient answering \<open>as\<close> to the successive stimuli. A descending pass whose first negative
  answer comes at the \<open>k\<close>-th intensity \<open>v\<close> of its sequence returns \<open>v + |delta_down|\<close>; with
  positive answers to the whole sequence it returns \<open>|delta_down|\<close>. An ascending pass returns
  the intensity of the first positive answer, and \<open>end_up\<close> when the whole sequence is
  answered negatively.
\<close>

theorem staircase_pass_result:
  assumes rdy: "ready h motor_idx w" and run: "\<not> stop w"
    and scr: "script w = map Answer as @ rest"
    and down: "delta_pwm_down h \<noteq> 0" and up: "delta_pwm_up h \<noteq> 0"
  shows "(k < length (descending_seq h draw) \<and> k < length as
            \<and> as ! k = No \<and> (\<forall>j<k. as ! j = Yes) \<longrightarrow>
          (\<exists>w'. downstream h draw motor_idx w
                  = Returned (descending_seq h draw ! k + \<bar>delta_pwm_down h\<bar>, w')))
       \<and> (length (descending_seq h draw) \<le> length as
            \<and> (\<forall>j<length (descending_seq h draw). as ! j = Yes) \<longrightarrow>
          (\<exists>w'. downstream h draw motor_idx w = Returned (\<bar>delta_pwm_down h\<bar>, w')))
       \<and> (k < length (ascending_seq h draw) \<and> k < length as
            \<and> as ! k = Yes \<and> (\<forall>j<k. as ! j = No) \<longrightarrow>
          (\<exists>w'. upstream h draw motor_idx w = Returned (ascending_seq h draw ! k, w')))
       \<and> (length (ascending_seq h draw) \<le> length as
            \<and> (\<forall>j<length (ascending_seq h draw). as ! j = No) \<longrightarrow>
          (\<exists>w'. upstream h draw motor_idx w = Returned (end_pwm_up h, w')))"
proof -
  have len: "length (replicate (nat (n_motors h)) (0::int)) = nat (n_motors h)" by simp
  note first = probe_loop_first[OF rdy len run scr]
  note exhausted = probe_loop_exhausted[OF rdy len run scr]
  show ?thesis
  proof (intro conjI impI; elim conjE)
    assume "k < length (descending_seq h draw)" "k < length as" "as ! k = No"
      "\<forall>j<k. as ! j = Yes"
    then show "\<exists>w'. downstream h draw motor_idx w
                  = Returned (descending_seq h draw ! k + \<bar>delta_pwm_down h\<bar>, w')"
      using first[of k "descending_seq h draw" No]
      by (auto simp: downstream_probe[OF down] probe_def)
  next
    assume "length (descending_seq h draw) \<le> length as"
      "\<forall>j<length (descending_seq h draw). as ! j = Yes"
    then show "\<exists>w'. downstream h draw motor_idx w = Returned (\<bar>delta_pwm_down h\<bar>, w')"
      using exhausted[of "descending_seq h draw" No]
      by (auto simp: downstream_probe[OF down] probe_def)
  next
    assume "k < length (ascending_seq h draw)" "k < length as" "as ! k = Yes"
      "\<forall>j<k. as ! j = No"
    then show "\<exists>w'. upstream h draw motor_idx w = Returned (ascending_seq h draw ! k, w')"
      using first[of k "ascending_seq h draw" Yes]
      by (auto simp: upstream_probe[OF up] probe_def)
  next
    assume "length (ascending_seq h draw) \<le> length as"
      "\<forall>j<length (ascending_seq h draw). as ! j = No"
    then show "\<exists>w'. upstream h draw motor_idx w = Returned (end_pwm_up h, w')"
      using exhausted[of "ascending_seq h draw" Yes]
      by (auto simp: upstream_probe[OF up] probe_def)
  qed
qed


lemma default_descending: "descending_seq default_hyps 3 = [30, 25, 20, 18, 16, 14, 12, 10, 8, 6, 4, 2]"
  by code_simp

lemma default_ascending:
  "ascending_seq default_hyps 4 = [4, 6, 8, 10, 12, 14, 16, 18, 20, 22, 24, 26, 28]"
  by code_simp

theorem staircase_pass_result_witness:
  "(\<exists>w'. downstream default_hyps 3 2
           \<lparr>vibro = \<lparr>vb_n_motors = 10, vb_connected = True, vb_written = [], vb_indicated = 0\<rparr>,
            stop = False, answer = None, script = [Answer Yes, Answer Yes, Answer No]\<rparr>
         = Returned (25, w'))
   \<and> (\<exists>w'. downstream default_hyps 3 2
           \<lparr>vibro = \<lparr>vb_n_motors = 10, vb_connected = True, vb_written = [], vb_indicated = 0\<rparr>,
            stop = False, answer = None, script = map Answer (replicate 12 Yes)\<rparr>
         = Returned (5, w'))
   \<and> (\<exists>w'. upstream default_hyps 4 2
           \<lparr>vibro = \<lparr>vb_n_motors = 10, vb_connected = True, vb_written = [], vb_indicated = 0\<rparr>,
            stop = False, answer = None, script = [Answer No, Answer No, Answer Yes]\<rparr>
         = Returned (8, w'))
   \<and> (\<exists>w'. upstream default_hyps 4 2
           \<lparr>vibro = \<lparr>vb_n_motors = 10, vb_connected = True, vb_written = [], vb_indicated = 0\<rparr>,
            stop = False, answer = None, script = map Answer (replicate 13 No)\<rparr>
         = Returned (30, w'))"
proof -
  let ?vb = "\<lparr>vb_n_motors = 10, vb_connected = True, vb_written = [], vb_indicated = 0\<rparr>"
  let ?w = "\<lambda>as :: yn list. \<lparr>vibro = ?vb, stop = False, answer = None, script = map Answer as\<rparr>"
  have rdy: "ready default_hyps 2 (?w as)" for as
    by (simp add: ready_def default_hyps_def)
  have run: "\<not> stop (?w as)" for as by simp
  have scr: "script (?w as) = map Answer as @ []" for as by simp
  have down: "delta_pwm_down default_hyps \<noteq> 0" and up: "delta_pwm_up default_hyps \<noteq> 0"
    by (simp_all add: default_hyps_def)
  have vals: "\<bar>delta_pwm_down default_hyps\<bar> = 5" "end_pwm_up default_hyps = 30"
    by (simp_all add: default_hyps_def)
  note pass = staircase_pass_result[OF rdy run scr down up]
  have a: "\<exists>w'. downstream default_hyps 3 2 (?w [Yes, Yes, No]) = Returned (25, w')"
    using pass[where as="[Yes, Yes, No]" and k=2 and draw=3] by (simp add: default_descending vals less_2_cases_iff)
  have b: "\<exists>w'. downstream default_hyps 3 2 (?w (replicate 12 Yes)) = Returned (5, w')"
    using pass[where as="replicate 12 Yes" and k=0 and draw=3] by (simp add: default_descending vals)
  have c: "\<exists>w'. upstream default_hyps 4 2 (?w [No, No, Yes]) = Returned (8, w')"
    using pass[where as="[No, No, Yes]" and k=2 and draw=4] by (simp add: default_ascending vals less_2_cases_iff)
  have d: "\<exists>w'. upstream default_hyps 4 2 (?w (replicate 13 No)) = Returned (30, w')"
    using pass[where as="replicate 13 No" and k=0 and draw=4] by (simp add: default_ascending vals)
  from a b c d show ?thesis by simp
qed

text \<open>The sequence of the specification's example, given to the probe as it is.\<close>

lemma probe_specification_example:
  "\<exists>w'. probe default_hyps [35, 30, 25, 20, 18, 16] 2 No
          \<lparr>vibro = \<lparr>vb_n_motors = 10, vb_connected = True, vb_written = [], vb_indicated = 0\<rparr>,
           stop = False, answer = None,
           script = [Answer Yes, Answer Yes, Answer Yes, Answer No]\<rparr>
        = Returned (20 + \<bar>delta_pwm_down default_hyps\<bar>, w')"
proof -
  let ?w = "\<lparr>vibro = \<lparr>vb_n_motors = 10, vb_connected = True, vb_written = [], vb_indicated = 0\<rparr>,
           stop = False, answer = None,
           script = [Answer Yes, Answer Yes, Answer Yes, Answer No]\<rparr>"
  have "\<exists>w'. probe_loop default_hyps No 2 (replicate (nat (n_motors default_hyps)) 0)
            [35, 30, 25, 20, 18, 16] ?w
          = Returned ([35, 30, 25, 20, 18, 16] ! 3
                       + \<bar>if No = No then delta_pwm_down default_hyps else 0\<bar>, w')
          \<and> \<not> stop w' \<and> motors_off (vibro w')
          \<and> script w' = map Answer (drop (Suc 3) [Yes, Yes, Yes, No]) @ []"
    by (rule probe_loop_first)
       (simp_all add: ready_def default_hyps_def less_Suc_eq numeral_3_eq_3)
  then obtain w' where r: "probe_loop default_hyps No 2 (replicate (nat (n_motors default_hyps)) 0)
            [35, 30, 25, 20, 18, 16] ?w
          = Returned ([35, 30, 25, 20, 18, 16] ! 3
                       + \<bar>if No = No then delta_pwm_down default_hyps else 0\<bar>, w')"
    by blast
  have v: "[35, 30, 25, 20, 18, 16] ! 3
             + \<bar>if No = No then delta_pwm_down default_hyps else 0\<bar>
           = 20 + \<bar>delta_pwm_down default_hyps\<bar>" by simp
  show ?thesis unfolding probe_def using r[unfolded v] by (rule exI)
qed

section \<open>Properties of the spatial presentation sequence\<close>

subsection \<open>Sampling without replacement and shuffling\<close>

lemma mset_remove_nth:
  "i < length xs \<Longrightarrow> add_mset (xs ! i) (mset (take i xs @ drop (Suc i) xs)) = mset xs"
proof -
  assume "i < length xs"
  then have "xs = take i xs @ xs ! i # drop (Suc i) xs" by (rule id_take_nth_drop)
  then have "mset xs = mset (take i xs @ xs ! i # drop (Suc i) xs)" by simp
  then show ?thesis by simp
qed

lemma length_sample_with: "k \<le> length pool \<Longrightarrow> length (sample_with cs pool k) = k"
proof (induction cs pool k rule: sample_with.induct)
  case (3 cs p pool k)
  define i where "i = (case cs of [] \<Rightarrow> 0 | c # _ \<Rightarrow> c mod Suc (length pool))"
  have i: "i < Suc (length pool)" by (simp add: i_def split: list.splits)
  have "length (sample_with (tl cs) (take i (p # pool) @ drop (Suc i) (p # pool)) k) = k"
    using "3.prems" i by (intro "3.IH"[OF i_def]) auto
  then show ?case by (simp add: i_def[symmetric] Let_def)
qed simp_all

lemma mset_sample_with: "mset (sample_with cs pool k) \<subseteq># mset pool"
proof (induction cs pool k rule: sample_with.induct)
  case (3 cs p pool k)
  define i where "i = (case cs of [] \<Rightarrow> 0 | c # _ \<Rightarrow> c mod Suc (length pool))"
  have i: "i < length (p # pool)" by (simp add: i_def split: list.splits)
  have "mset (sample_with (tl cs) (take i (p # pool) @ drop (Suc i) (p # pool)) k)
          \<subseteq># mset (take i (p # pool) @ drop (Suc i) (p # pool))"
    by (rule "3.IH"[OF i_def])
  then have "add_mset ((p # pool) ! i)
               (mset (sample_with (tl cs) (take i (p # pool) @ drop (Suc i) (p # pool)) k))
          \<subseteq># add_mset ((p # pool) ! i) (mset (take i (p # pool) @ drop (Suc i) (p # pool)))"
    by simp
  then show ?case
    unfolding mset_remove_nth[OF i] by (simp add: i_def[symmetric] Let_def)
qed simp_all

lemma mset_sample_with_all: "k = length pool \<Longrightarrow> mset (sample_with cs pool k) = mset pool"
proof (induction cs pool k rule: sample_with.induct)
  case (3 cs p pool k)
  define i where "i = (case cs of [] \<Rightarrow> 0 | c # _ \<Rightarrow> c mod Suc (length pool))"
  have i: "i < length (p # pool)" by (simp add: i_def split: list.splits)
  have "mset (sample_with (tl cs) (take i (p # pool) @ drop (Suc i) (p # pool)) k)
          = mset (take i (p # pool) @ drop (Suc i) (p # pool))"
    using "3.prems" i by (intro "3.IH"[OF i_def]) auto
  then have "add_mset ((p # pool) ! i)
               (mset (sample_with (tl cs) (take i (p # pool) @ drop (Suc i) (p # pool)) k))
          = add_mset ((p # pool) ! i) (mset (take i (p # pool) @ drop (Suc i) (p # pool)))"
    by simp
  then show ?case
    unfolding mset_remove_nth[OF i] by (simp add: i_def[symmetric] Let_def)
qed simp_all

lemma mset_shuffle_with: "mset (shuffle_with cs xs) = mset xs"
  by (simp add: shuffle_with_def mset_sample_with_all)

lemma distinct_sample_with: "distinct pool \<Longrightarrow> distinct (sample_with cs pool k)"
proof -
  assume "distinct pool"
  then have "\<And>x. count (mset pool) x \<le> 1" by (simp add: distinct_count_atmost_1)
  moreover have "\<And>x. count (mset (sample_with cs pool k)) x \<le> count (mset pool) x"
    using mset_sample_with[of cs pool k] by (simp add: mset_subset_eq_count)
  ultimately have "\<And>x. count (mset (sample_with cs pool k)) x \<le> 1"
    using order_trans by blast
  then show ?thesis unfolding distinct_count_atmost_1 by (simp add: le_Suc_eq)
qed

lemma set_sample_with: "set (sample_with cs pool k) \<subseteq> set pool"
  using mset_sample_with[of cs pool k] by (metis set_mset_mono set_mset_mset)

lemma count_list_concat_replicate:
  "count_list (concat (replicate n xs)) x = n * count_list xs x"
  by (induction n) simp_all

lemma count_list_distinct: "distinct xs \<Longrightarrow> count_list xs x = (if x \<in> set xs then 1 else 0)"
  by (induction xs) auto


lemma length_concat_replicate: "length (concat (replicate n xs)) = n * length xs"
  by (induction n) simp_all

lemma count_list_shuffle_with: "count_list (shuffle_with cs xs) x = count_list xs x"
proof -
  have "count (mset (shuffle_with cs xs)) x = count (mset xs) x"
    by (simp only: mset_shuffle_with)
  then show ?thesis by (simp only: count_mset)
qed

lemma length_shuffle_with: "length (shuffle_with cs xs) = length xs"
  by (simp add: shuffle_with_def length_sample_with)

text \<open>
  Claim C4. For every pool of \<open>U \<ge> 1\<close> distinct regions and every sample count \<open>S \<ge> 0\<close>, and
  whatever the random source yields, the presentation sequence has length exactly \<open>S\<close> and
  holds every region \<open>q\<close> times plus once more for each of \<open>r\<close> distinct extra regions of
  the pool, where \<open>q, r = divmod(S, U)\<close>.
\<close>

theorem spatial_sequence_balanced:
  assumes ne: "uses \<noteq> []" and dist: "distinct uses" and S: "0 \<le> max_counter_samples h"
  shows "\<exists>seq extra.
           spatial_sequence h sample_choices shuffle_choices uses = Inr seq
         \<and> int (length seq) = max_counter_samples h
         \<and> distinct extra \<and> set extra \<subseteq> set uses
         \<and> int (length extra) = max_counter_samples h mod int (length uses)
         \<and> (\<forall>m. count_list seq m =
                  nat (max_counter_samples h div int (length uses))
                    * (if m \<in> set uses then 1 else 0)
                  + (if m \<in> set extra then 1 else 0))"
proof -
  define U where "U = int (length uses)"
  define q where "q = max_counter_samples h div U"
  define r where "r = max_counter_samples h mod U"
  define extra where "extra = (if 0 < r then sample_with sample_choices uses (nat r) else [])"
  define seq where "seq = shuffle_with shuffle_choices (concat (replicate (nat q) uses) @ extra)"
  from ne have U: "0 < U" by (simp add: U_def)
  then have r: "0 \<le> r" "r < U" by (simp_all add: r_def)
  from U S have q: "0 \<le> q" by (simp add: q_def pos_imp_zdiv_nonneg_iff)
  have split: "max_counter_samples h = q * U + r"
    by (simp add: q_def r_def)
  have run: "spatial_sequence h sample_choices shuffle_choices uses = Inr seq"
    unfolding spatial_sequence_def Let_def seq_def extra_def q_def r_def U_def py_sample_def
    using r[unfolded r_def U_def] by simp
  have len_extra: "int (length extra) = r"
  proof (cases "0 < r")
    case True
    then have "nat r \<le> length uses" using r by (simp add: U_def)
    then show ?thesis using True by (simp add: extra_def length_sample_with)
  next
    case False
    with r show ?thesis by (simp add: extra_def)
  qed
  have "int (length seq) = int (nat q) * U + int (length extra)"
    by (simp add: seq_def length_shuffle_with length_concat_replicate U_def)
  then have len_seq: "int (length seq) = max_counter_samples h"
    using q len_extra split by simp
  have d_extra: "distinct extra"
    using dist by (simp add: extra_def distinct_sample_with)
  have s_extra: "set extra \<subseteq> set uses"
    using set_sample_with[of sample_choices uses "nat r"] by (auto simp: extra_def)
  have cnt: "count_list seq m = nat q * (if m \<in> set uses then 1 else 0)
                                 + (if m \<in> set extra then 1 else 0)" for m
    by (simp add: seq_def count_list_shuffle_with count_list_concat_replicate
          count_list_distinct[OF dist] count_list_distinct[OF d_extra])
  from run len_seq d_extra s_extra len_extra cnt show ?thesis
    unfolding q_def r_def U_def by blast
qed

text \<open>The pools the procedure builds are distinct.\<close>

lemma distinct_progression: "d \<noteq> 0 \<Longrightarrow> distinct (progression a b d)"
  by (simp add: progression_def distinct_map inj_on_def)

lemma region_starts_distinct: "region_starts h md = Inr uses \<Longrightarrow> distinct uses"
  by (auto simp: region_starts_def py_range_def distinct_progression split: if_splits)

text \<open>Four regions and ten samples: two full cycles, two extras, length ten.\<close>

theorem spatial_sequence_balanced_witness:
  "(\<exists>seq (extra :: int list).
      spatial_sequence (default_hyps\<lparr>max_counter_samples := 10\<rparr>) [1, 2] [3, 1, 4, 1, 5, 9, 2, 6]
        [0, 2, 4, 6] = Inr seq
      \<and> length seq = 10 \<and> distinct extra \<and> length extra = 2
      \<and> count_list seq 0 = 2 + (if 0 \<in> set extra then 1 else 0)
      \<and> count_list seq 2 = 2 + (if 2 \<in> set extra then 1 else 0)
      \<and> count_list seq 4 = 2 + (if 4 \<in> set extra then 1 else 0)
      \<and> count_list seq 6 = 2 + (if 6 \<in> set extra then 1 else 0))"
proof -
  let ?h = "default_hyps\<lparr>max_counter_samples := 10\<rparr>"
  let ?uses = "[0, 2, 4, 6 :: int]"
  have ne: "?uses \<noteq> []" by simp
  have dist: "distinct ?uses" by simp
  have S: "0 \<le> max_counter_samples ?h" by simp
  from spatial_sequence_balanced[OF ne dist S, of "[1, 2]" "[3, 1, 4, 1, 5, 9, 2, 6]"]
  obtain seq extra where
    run: "spatial_sequence ?h [1, 2] [3, 1, 4, 1, 5, 9, 2, 6] ?uses = Inr seq"
    and len: "int (length seq) = max_counter_samples ?h"
    and d: "distinct extra"
    and le: "int (length extra) = max_counter_samples ?h mod int (length ?uses)"
    and cnt: "\<forall>m. count_list seq m =
                  nat (max_counter_samples ?h div int (length ?uses))
                    * (if m \<in> set ?uses then 1 else 0)
                  + (if m \<in> set extra then 1 else 0)"
    by blast
  from len have l10: "length seq = 10" by simp
  from le have l2: "length extra = 2" by simp
  have q: "nat (max_counter_samples ?h div int (length ?uses)) = 2" by simp
  from cnt[rule_format, of 0] cnt[rule_format, of 2] cnt[rule_format, of 4] cnt[rule_format, of 6]
  have c: "count_list seq 0 = 2 + (if 0 \<in> set extra then 1 else 0)"
          "count_list seq 2 = 2 + (if 2 \<in> set extra then 1 else 0)"
          "count_list seq 4 = 2 + (if 4 \<in> set extra then 1 else 0)"
          "count_list seq 6 = 2 + (if 6 \<in> set extra then 1 else 0)"
    unfolding q by simp_all
  from run l10 d l2 c show ?thesis by blast
qed

lemma spatial_sequence_example:
  "spatial_sequence (default_hyps\<lparr>max_counter_samples := 10\<rparr>) [1, 2] [3, 1, 4, 1, 5, 9, 2, 6]
     [0, 2, 4, 6] = Inr [6, 2, 4, 4, 6, 2, 2, 0, 0, 6]"
  by code_simp


subsection \<open>Regions in single mode\<close>

text \<open>
  In single mode the pool is every motor from \<open>start\<close> to \<open>end\<close>, and with step 1 the
  recorded region tells the motors apart.
\<close>

lemma single_mode_enumeration:
  "region_starts h Single = Inr [num_motor_start h..num_motor_end h]"
proof -
  have "progression a (b + 1) 1 = [a..b]" for a b :: int
  proof (rule nth_equalityI)
    show "length (progression a (b + 1) 1) = length [a..b]"
      by (simp add: progression_def range_len_def add.commute)
  next
    fix i
    assume "i < length (progression a (b + 1) 1)"
    then show "progression a (b + 1) 1 ! i = [a..b] ! i"
      by (simp add: progression_def range_len_def split: if_splits)
  qed
  then show ?thesis by (simp add: region_starts_def py_range_def)
qed

lemma true_region_step_one:
  assumes "use_motors_step h = 1"
    and "true_region h Single m = Inr k" and "true_region h Single m' = Inr k"
  shows "m = m'"
  using assms by (simp add: true_region_def)

text \<open>
  Claim C5 says that the recorded region index is distinct for distinct presented motors.
  The region index divides by \<^verbatim>\<open>use_motors_step\<close> although the pool advances by 1: with
  the step 2 of the default profile, motors 0 and 1 are both recorded as region 1.
\<close>

theorem single_mode_regions_collide:
  "region_starts (default_hyps\<lparr>spatial_mode := Single\<rparr>) Single = Inr [0, 1, 2, 3, 4, 5]
   \<and> true_region (default_hyps\<lparr>spatial_mode := Single\<rparr>) Single 0 = Inr 1
   \<and> true_region (default_hyps\<lparr>spatial_mode := Single\<rparr>) Single 1 = Inr 1"
  by code_simp

section \<open>Properties of the discrimination procedure\<close>

subsection \<open>The presentations of one motor\<close>

lemma trials_of_append:
  "trials_of motor (w\<lparr>pm_results := upd_default motor [] (\<lambda>ts. ts @ [x]) (pm_results w)\<rparr>)
     = trials_of motor w @ [x]"
  by (simp add: trials_of_def map_of_upd_default split: option.splits)

lemma trials_of_other:
  "m \<noteq> motor \<Longrightarrow>
   map_of (upd_default motor d f rs) m = map_of rs m"
  by (simp add: map_of_upd_default)

text \<open>What one pass through the loop body comes to when the loop returns.\<close>

lemma pmpwm_steps_Cons:
  assumes "pmpwm_steps h motor (pwm # seq) w = Returned r"
  obtains (cancelled) w1 where "r = Quit w1" "pm_results w1 = pm_results w"
      "emitted w1 = emitted w" "motors w1 = motors w" "stop w1" "motors_off (vibro w1)"
  | (answered) w1 i a where "py_index (pmpwm_pwm_values h) pwm = Inr i"
      "pm_results w1 = upd_default motor [] (\<lambda>ts. ts @ [(int i + 1, a)]) (pm_results w)"
      "emitted w1 = emitted w" "motors w1 = motors w"
      "pmpwm_steps h motor seq w1 = Returned r"
proof -
  from assms obtain zeros arr wa wb wc where
    "actuate arr w = Returned wa" and rb: "reset (sleep wa) = Returned wb"
    and aw: "await wb = Returned wc"
    and rest: "(if stop wc then andthen (reset wc) (\<lambda>w. Returned (Quit w))
       else
         andthen (lift (py_index (pmpwm_pwm_values h) pwm)) (\<lambda>i.
           case answer wc of
             None \<Rightarrow> Raised TypeError
           | Some a \<Rightarrow>
               pmpwm_steps h motor seq
                 (sleep (wc\<lparr>pm_results :=
                    upd_default motor [] (\<lambda>ts. ts @ [(int i + 1, a)]) (pm_results wc)\<rparr>)))) = Returned r"
    by (auto elim!: andthen_Returned)
  then have keep: "pm_results wc = pm_results w" "emitted wc = emitted w" "motors wc = motors w"
    by (auto dest!: actuate_Returned reset_Returned await_pmpwm_fields)
  show ?thesis
  proof (cases "stop wc")
    case True
    with rest obtain w1 where w1: "reset wc = Returned w1" "r = Quit w1"
      by (auto elim!: andthen_Returned)
    from w1(1) have "pm_results w1 = pm_results wc" "emitted w1 = emitted wc"
      "motors w1 = motors wc" "stop w1 = stop wc"
      by (auto dest!: reset_Returned)
    with keep True w1 motors_off_reset[OF w1(1)] show ?thesis by (intro cancelled[of w1]) simp_all
  next
    case False
    with rest obtain i a where i: "py_index (pmpwm_pwm_values h) pwm = Inr i"
      and a: "answer wc = Some a"
      and go: "pmpwm_steps h motor seq
                 (sleep (wc\<lparr>pm_results :=
                    upd_default motor [] (\<lambda>ts. ts @ [(int i + 1, a)]) (pm_results wc)\<rparr>)) = Returned r"
      by (auto elim!: andthen_Returned simp: lift_Returned split: option.splits)
    show ?thesis
      by (rule answered[OF i _ _ _ go]) (simp_all add: keep)
  qed
qed

lemma pmpwm_steps_frame:
  "pmpwm_steps h motor seq w = Returned r \<Longrightarrow>
     emitted (state_of r) = emitted w \<and> motors (state_of r) = motors w
     \<and> (\<forall>m. m \<noteq> motor \<longrightarrow> map_of (pm_results (state_of r)) m = map_of (pm_results w) m)"
proof (induction seq arbitrary: w)
  case Nil
  then show ?case by auto
next
  case (Cons pwm seq)
  from Cons.prems show ?case
  proof (cases rule: pmpwm_steps_Cons)
    case (cancelled w1)
    then show ?thesis by simp
  next
    case (answered w1 i a)
    from Cons.IH[OF answered(5)] answered(2,3,4) show ?thesis
      by (simp add: map_of_upd_default)
  qed
qed

lemma pmpwm_steps_levels:
  "pmpwm_steps h motor seq w = Returned r \<Longrightarrow>
     \<exists>new. trials_of motor (state_of r) = trials_of motor w @ new \<and> length new \<le> length seq
       \<and> (\<forall>k<length new. py_index (pmpwm_pwm_values h) (seq ! k) = Inr (nat (fst (new ! k) - 1))
                          \<and> 1 \<le> fst (new ! k))"
proof (induction seq arbitrary: w)
  case Nil
  then show ?case by auto
next
  case (Cons pwm seq)
  from Cons.prems show ?case
  proof (cases rule: pmpwm_steps_Cons)
    case (cancelled w1)
    then have "trials_of motor (state_of r) = trials_of motor w @ []"
      by (simp add: trials_of_def)
    then show ?thesis by (intro exI[of _ "[]"]) simp
  next
    case (answered w1 i a)
    from Cons.IH[OF answered(5)] obtain new where
      new: "trials_of motor (state_of r) = trials_of motor w1 @ new" "length new \<le> length seq"
        "\<forall>k<length new. py_index (pmpwm_pwm_values h) (seq ! k) = Inr (nat (fst (new ! k) - 1))
                          \<and> 1 \<le> fst (new ! k)"
      by blast
    have w1: "trials_of motor w1 = trials_of motor w @ [(int i + 1, a)]"
      using answered(2) by (simp add: trials_of_def map_of_upd_default split: option.splits)
    have "\<forall>k<length ((int i + 1, a) # new).
            py_index (pmpwm_pwm_values h) ((pwm # seq) ! k)
              = Inr (nat (fst (((int i + 1, a) # new) ! k) - 1))
            \<and> 1 \<le> fst (((int i + 1, a) # new) ! k)"
      using new(3) answered(1) by (auto simp: nth_Cons split: nat.splits)
    with new(1,2) w1 show ?thesis
      by (intro exI[of _ "(int i + 1, a) # new"]) simp
  qed
qed

lemma py_index_in_set: "py_index xs x = Inr i \<Longrightarrow> x \<in> set xs"
  by (induction xs arbitrary: i) (auto split: if_splits sum.splits)

lemma py_index_rank:
  "sorted xs \<Longrightarrow> distinct xs \<Longrightarrow> py_index xs x = Inr i \<Longrightarrow>
     i = card {y \<in> set xs. y < (x::int)}"
proof (induction xs arbitrary: i)
  case Nil
  then show ?case by simp
next
  case (Cons y ys)
  show ?case
  proof (cases "y = x")
    case True
    with Cons.prems have "{z \<in> set (y # ys). z < x} = {}" by auto
    with True Cons.prems show ?thesis by simp
  next
    case False
    with Cons.prems obtain i' where i': "py_index ys x = Inr i'" "i = Suc i'"
      by (auto split: sum.splits)
    from py_index_in_set[OF i'(1)] Cons.prems False have "y < x" by auto
    moreover from Cons.prems have "y \<notin> {z \<in> set ys. z < x}" by auto
    ultimately have "{z \<in> set (y # ys). z < x} = insert y {z \<in> set ys. z < x}" by auto
    moreover have "card (insert y {z \<in> set ys. z < x}) = Suc (card {z \<in> set ys. z < x})"
      using \<open>y \<notin> {z \<in> set ys. z < x}\<close> by simp
    moreover from Cons.IH[OF _ _ i'(1)] Cons.prems have "i' = card {z \<in> set ys. z < x}" by simp
    ultimately show ?thesis using i'(2) by simp
  qed
qed

lemma get_hyps_pwms_increasing:
  "sorted previous \<Longrightarrow> distinct previous \<Longrightarrow>
     sorted (get_hyps_pwms parsed previous) \<and> distinct (get_hyps_pwms parsed previous)"
  by (simp add: get_hyps_pwms_def split: option.splits)

subsection \<open>The true level of a Trial\<close>

text \<open>
  Claim C6, as amended. Whenever the presentations of a motor return, each Trial they have
  added holds as true level the 1-based position of the first occurrence of the presented
  intensity in the schedule the engine was given. When that schedule is strictly
  increasing, as the configuration dialog leaves it, this is the 1-based rank of the
  intensity within the sorted schedule: one more than the number of smaller intensities.
\<close>

theorem true_level_recorded:
  assumes "pmpwm_steps h motor seq w = Returned r"
  shows "\<exists>new. trials_of motor (state_of r) = trials_of motor w @ new
           \<and> length new \<le> length seq
           \<and> (\<forall>k<length new.
                 py_index (pmpwm_pwm_values h) (seq ! k) = Inr (nat (fst (new ! k) - 1))
                 \<and> 1 \<le> fst (new ! k))
           \<and> (sorted (pmpwm_pwm_values h) \<and> distinct (pmpwm_pwm_values h) \<longrightarrow>
                (\<forall>k<length new.
                   fst (new ! k) = 1 + int (card {x \<in> set (pmpwm_pwm_values h). x < seq ! k})))"
proof -
  from pmpwm_steps_levels[OF assms] obtain new where
    new: "trials_of motor (state_of r) = trials_of motor w @ new" "length new \<le> length seq"
      "\<forall>k<length new. py_index (pmpwm_pwm_values h) (seq ! k) = Inr (nat (fst (new ! k) - 1))
                          \<and> 1 \<le> fst (new ! k)"
    by blast
  have "fst (new ! k) = 1 + int (card {x \<in> set (pmpwm_pwm_values h). x < seq ! k})"
    if inc: "sorted (pmpwm_pwm_values h)" "distinct (pmpwm_pwm_values h)" and k: "k < length new"
    for k
  proof -
    from new(3) k have ix: "py_index (pmpwm_pwm_values h) (seq ! k) = Inr (nat (fst (new ! k) - 1))"
      and pos: "1 \<le> fst (new ! k)" by simp_all
    from py_index_rank[OF inc ix] pos show ?thesis by simp
  qed
  with new show ?thesis by blast
qed

lemma ex_steps:
  "recorded (pmpwm_steps (default_hyps\<lparr>pmpwm_pwm_values := [10, 20], pmpwm_repeats := 2\<rparr>) 3
       [10, 20, 20, 10]
       (new_worker \<lparr>vb_n_motors = 10, vb_connected = True, vb_written = [], vb_indicated = 0\<rparr>
          [3] [Answer 1, Answer 2, Answer 1, Answer 2])) 3
   = [(1, 1), (2, 2), (2, 1), (1, 2)]"
  by code_simp


lemma ex_steps_return:
  "(case pmpwm_steps (default_hyps\<lparr>pmpwm_pwm_values := [10, 20], pmpwm_repeats := 2\<rparr>) 3
       [10, 20, 20, 10]
       (new_worker \<lparr>vb_n_motors = 10, vb_connected = True, vb_written = [], vb_indicated = 0\<rparr>
          [3] [Answer 1, Answer 2, Answer 1, Answer 2]) of Returned r \<Rightarrow> True | _ \<Rightarrow> False)"
  by code_simp

theorem true_level_recorded_witness:
  "\<exists>r. pmpwm_steps (default_hyps\<lparr>pmpwm_pwm_values := [10, 20], pmpwm_repeats := 2\<rparr>) 3
       [10, 20, 20, 10]
       (new_worker \<lparr>vb_n_motors = 10, vb_connected = True, vb_written = [], vb_indicated = 0\<rparr>
          [3] [Answer 1, Answer 2, Answer 1, Answer 2]) = Returned r
     \<and> trials_of 3 (state_of r) = [(1, 1), (2, 2), (2, 1), (1, 2)]
     \<and> fst (trials_of 3 (state_of r) ! 1) = 1 + int (card {x \<in> set [10, 20 :: int]. x < 20})"
proof -
  let ?h = "default_hyps\<lparr>pmpwm_pwm_values := [10, 20], pmpwm_repeats := 2\<rparr>"
  let ?w = "new_worker \<lparr>vb_n_motors = 10, vb_connected = True, vb_written = [], vb_indicated = 0\<rparr>
          [3] [Answer 1, Answer 2, Answer 1, Answer 2]"
  from ex_steps_return obtain r where run: "pmpwm_steps ?h 3 [10, 20, 20, 10] ?w = Returned r"
    by (auto split: outcome.splits)
  with ex_steps have rec: "trials_of 3 (state_of r) = [(1, 1), (2, 2), (2, 1), (1, 2)]"
    by (simp add: recorded_def)
  have old: "trials_of 3 ?w = []" by (simp add: trials_of_def new_worker_def)
  have inc: "sorted (pmpwm_pwm_values ?h) \<and> distinct (pmpwm_pwm_values ?h)" by simp
  from true_level_recorded[OF run] obtain new where
    new: "trials_of 3 (state_of r) = trials_of 3 ?w @ new"
    and rank: "sorted (pmpwm_pwm_values ?h) \<and> distinct (pmpwm_pwm_values ?h) \<longrightarrow>
                (\<forall>k<length new.
                   fst (new ! k) = 1 + int (card {x \<in> set (pmpwm_pwm_values ?h).
                                                  x < [10, 20, 20, 10] ! k}))"
    by blast
  from new old have n: "new = trials_of 3 (state_of r)" by simp
  from rec n have "1 < length new" by simp
  with rank inc have "fst (new ! 1) = 1 + int (card {x \<in> set (pmpwm_pwm_values ?h).
                                                  x < [10, 20, 20, 10] ! 1})"
    by blast
  then have "fst (trials_of 3 (state_of r) ! 1)
               = 1 + int (card {x \<in> set [10, 20 :: int]. x < 20})"
    unfolding n by simp
  with run rec show ?thesis by blast
qed

text \<open>
  On the schedule 20, 10 the engine records the presented intensity 20 as level 1, while 20
  has rank 2 in the sorted schedule (position 1 counted from 0).
\<close>

theorem true_level_unsorted_counterexample:
  "recorded (pmpwm_steps (default_hyps\<lparr>pmpwm_pwm_values := [20, 10]\<rparr>) 3 [20]
       (new_worker \<lparr>vb_n_motors = 10, vb_connected = True, vb_written = [], vb_indicated = 0\<rparr>
          [3] [Answer 1])) 3 = [(1, 1)]
   \<and> py_index (sort [20, 10 :: int]) 20 = Inr 1"
  by code_simp

subsection \<open>Rewriting a motor\<close>

lemma map_of_dict_set: "map_of (dict_set k v kvs) = (map_of kvs)(k \<mapsto> v)"
  by (induction kvs) (auto simp: fun_eq_iff)

lemma map_of_dict_pop: "map_of (dict_pop k kvs) = (map_of kvs)(k := None)"
  by (induction kvs) (auto simp: dict_pop_def fun_eq_iff)

lemma pmpwm_motors_frame:
  "pmpwm_motors h seq_choices ms w = Returned r \<Longrightarrow>
     motors (state_of r) = motors w
     \<and> (\<exists>done. emitted (state_of r) = emitted w @ done \<and> set done \<subseteq> set ms)
     \<and> (\<forall>m. m \<notin> set ms \<longrightarrow> map_of (pm_results (state_of r)) m = map_of (pm_results w) m)"
proof (induction ms arbitrary: w)
  case Nil
  then show ?case by auto
next
  case (Cons motor ms)
  let ?w0 = "w\<lparr>pm_results := dict_set motor [] (pm_results w)\<rparr>"
  from Cons.prems obtain r1 where
    steps: "pmpwm_steps h motor
          (shuffle_with (seq_choices motor)
             (concat (replicate (nat (pmpwm_repeats h)) (pmpwm_pwm_values h)))) ?w0 = Returned r1"
    and rest: "(case r1 of Quit w \<Rightarrow> Returned (Quit w)
             | Next w \<Rightarrow> pmpwm_motors h seq_choices ms (w\<lparr>emitted := emitted w @ [motor]\<rparr>))
            = Returned r"
    by (auto elim!: andthen_Returned)
  from pmpwm_steps_frame[OF steps] have f1: "emitted (state_of r1) = emitted w"
    "motors (state_of r1) = motors w"
    "\<forall>m. m \<noteq> motor \<longrightarrow> map_of (pm_results (state_of r1)) m = map_of (pm_results w) m"
    by (simp_all add: map_of_dict_set)
  show ?case
  proof (cases r1)
    case (Quit w1)
    with rest have "r = Quit w1" by simp
    with f1 Quit show ?thesis by auto
  next
    case (Next w1)
    with rest have "pmpwm_motors h seq_choices ms (w1\<lparr>emitted := emitted w1 @ [motor]\<rparr>)
                    = Returned r" by simp
    from Cons.IH[OF this] obtain dn where
      "motors (state_of r) = motors w1"
      "emitted (state_of r) = (emitted w1 @ [motor]) @ dn" "set dn \<subseteq> set ms"
      "\<forall>m. m \<notin> set ms \<longrightarrow> map_of (pm_results (state_of r)) m = map_of (pm_results w1) m"
      by auto
    with f1 Next show ?thesis
      by (intro conjI exI[of _ "motor # dn"]) auto
  qed
qed

lemma pmpwm_run_frame:
  assumes "pmpwm_run h seq_choices w = Returned (res, w')"
  shows "motors w' = motors w
     \<and> (\<exists>done. emitted w' = emitted w @ done \<and> set done \<subseteq> set (motors w))
     \<and> (\<forall>m. m \<notin> set (motors w) \<longrightarrow> map_of (pm_results w') m = map_of (pm_results w) m)"
proof -
  from assms obtain r where ms: "pmpwm_motors h seq_choices (motors w) w = Returned r"
    and rest: "(case r of Quit w \<Rightarrow> Returned (None, w)
       | Next w \<Rightarrow>
           andthen (end_indicator w) (\<lambda>w.
           andthen (pmpwm_result_of h w) (\<lambda>res.
           Returned (Some res, w)))) = Returned (res, w')"
    unfolding pmpwm_run_def by (auto elim!: andthen_Returned)
  note f = pmpwm_motors_frame[OF ms]
  show ?thesis
  proof (cases r)
    case (Quit w1)
    with rest f show ?thesis by auto
  next
    case (Next w1)
    with rest obtain w2 where "end_indicator w1 = Returned w2" "w' = w2"
      by (auto elim!: andthen_Returned)
    then have "\<exists>vb. w' = w1\<lparr>vibro := vb\<rparr>"
      by (auto simp: end_indicator_def elim!: andthen_Returned)
    with f Next show ?thesis by auto
  qed
qed

lemma deliver_frame:
  "deliver w ms mw = Returned mw' \<Longrightarrow>
     (\<forall>m. m \<notin> set ms \<longrightarrow> map_of (results_pmpwm mw') m = map_of (results_pmpwm mw) m
                          \<and> (m \<in> motors_completed mw') = (m \<in> motors_completed mw))
     \<and> (\<forall>m. m \<in> set ms \<longrightarrow> map_of (results_pmpwm mw') m = map_of (pm_results w) m
                          \<and> m \<in> motors_completed mw')
     \<and> mw_vibro mw' = mw_vibro mw \<and> mw_hyps mw' = mw_hyps mw \<and> motors_all mw' = motors_all mw
     \<and> pending_queue mw' = pending_queue mw"
proof (induction ms arbitrary: mw)
  case Nil
  then show ?case by simp
next
  case (Cons motor ms)
  from Cons.prems obtain mw1 where one: "on_motor_done w motor mw = Returned mw1"
    and rest: "deliver w ms mw1 = Returned mw'"
    by (auto elim!: andthen_Returned)
  from one obtain ts where ts: "map_of (pm_results w) motor = Some ts"
    and mw1: "mw1 = mw\<lparr>motors_completed := insert motor (motors_completed mw),
                       results_pmpwm := dict_set motor ts (results_pmpwm mw)\<rparr>"
    by (auto simp: on_motor_done_def split: option.splits)
  from Cons.IH[OF rest] ts mw1 show ?case
    by (cases "motor \<in> set ms") (auto simp: map_of_dict_set)
qed

lemma forget_motor_discards:
  "map_of (results_pmpwm (forget_motor motor mw)) motor = None
   \<and> motor \<notin> motors_completed (forget_motor motor mw)"
  by (simp add: forget_motor_def map_of_dict_pop)

lemma forget_motor_frame:
  "m \<noteq> motor \<Longrightarrow>
     map_of (results_pmpwm (forget_motor motor mw)) m = map_of (results_pmpwm mw) m
     \<and> (m \<in> motors_completed (forget_motor motor mw)) = (m \<in> motors_completed mw)"
  by (simp add: forget_motor_def map_of_dict_pop)

lemma forget_motor_queue:
  "set (pending_queue (forget_motor motor mw))
     = {m \<in> set (motors_all mw). m \<notin> motors_completed mw \<and> m \<noteq> motor}"
  by (auto simp: forget_motor_def)

lemma launch_frame:
  assumes "launch_pmpwm_worker seq_choices events motors_list mw = Returned (mw', fin)"
  shows "\<exists>res w. pmpwm_run (mw_hyps mw) seq_choices (new_worker (mw_vibro mw) motors_list events)
                   = Returned (res, w)
           \<and> fin = (res \<noteq> None) \<and> motors w = motors_list \<and> set (emitted w) \<subseteq> set motors_list
           \<and> (\<forall>m. m \<notin> set (emitted w) \<longrightarrow>
                  map_of (results_pmpwm mw') m = map_of (results_pmpwm mw) m
                  \<and> (m \<in> motors_completed mw') = (m \<in> motors_completed mw))
           \<and> (\<forall>m. m \<in> set (emitted w) \<longrightarrow>
                  map_of (results_pmpwm mw') m = map_of (pm_results w) m
                  \<and> m \<in> motors_completed mw')"
proof -
  let ?w0 = "new_worker (mw_vibro mw) motors_list events"
  from assms obtain res w mw1 where
    run: "pmpwm_run (mw_hyps mw) seq_choices ?w0 = Returned (res, w)"
    and dl: "deliver w (emitted w) mw = Returned mw1"
    and out: "mw' = mw1\<lparr>mw_vibro := vibro w\<rparr>" "fin = (res \<noteq> None)"
    unfolding launch_pmpwm_worker_def by (auto elim!: andthen_Returned)
  from pmpwm_run_frame[OF run] have "motors w = motors_list" "set (emitted w) \<subseteq> set motors_list"
    by (auto simp: new_worker_def)
  moreover note deliver_frame[OF dl]
  ultimately show ?thesis using run out by (intro exI[of _ res] exI[of _ w]) simp
qed

text \<open>
  Claim C9. Rewriting a motor first removes that motor's Trials and its completion mark,
  then runs a worker on that motor alone. When the run returns, every other motor has the
  Trials, the completion status and the entry of \<^verbatim>\<open>per_motor_acc\<close> it had before; the
  rewritten motor holds the Trials of the new run when it was completed again, and none
  otherwise.
\<close>

theorem rewrite_frame:
  "map_of (results_pmpwm (forget_motor motor mw)) motor = None
   \<and> motor \<notin> motors_completed (forget_motor motor mw)
   \<and> (run_pmpwm_for_motor seq_choices events motor mw = Returned (mw', fin) \<longrightarrow>
        (\<forall>m. m \<noteq> motor \<longrightarrow>
              map_of (results_pmpwm mw') m = map_of (results_pmpwm mw) m
              \<and> (m \<in> motors_completed mw') = (m \<in> motors_completed mw)
              \<and> per_motor_accuracy mw' m = per_motor_accuracy mw m)
        \<and> (\<exists>res w. pmpwm_run (mw_hyps mw) seq_choices (new_worker (mw_vibro mw) [motor] events)
                       = Returned (res, w)
               \<and> motors w = [motor]
               \<and> (motor \<in> motors_completed mw' \<longrightarrow>
                     map_of (results_pmpwm mw') motor = map_of (pm_results w) motor)
               \<and> (motor \<notin> motors_completed mw' \<longrightarrow>
                     map_of (results_pmpwm mw') motor = None)))"
proof (intro conjI impI)
  show "map_of (results_pmpwm (forget_motor motor mw)) motor = None"
    "motor \<notin> motors_completed (forget_motor motor mw)"
    using forget_motor_discards by simp_all
next
  assume run: "run_pmpwm_for_motor seq_choices events motor mw = Returned (mw', fin)"
  let ?mw0 = "forget_motor motor mw"
  have same: "mw_hyps ?mw0 = mw_hyps mw" "mw_vibro ?mw0 = mw_vibro mw"
    by (simp_all add: forget_motor_def)
  from run have "launch_pmpwm_worker seq_choices events [motor] ?mw0 = Returned (mw', fin)"
    by (simp add: run_pmpwm_for_motor_def)
  from launch_frame[OF this] obtain res w where
    w: "pmpwm_run (mw_hyps mw) seq_choices (new_worker (mw_vibro mw) [motor] events)
          = Returned (res, w)"
    and ms: "motors w = [motor]" and em: "set (emitted w) \<subseteq> {motor}"
    and keep: "\<forall>m. m \<notin> set (emitted w) \<longrightarrow>
                  map_of (results_pmpwm mw') m = map_of (results_pmpwm ?mw0) m
                  \<and> (m \<in> motors_completed mw') = (m \<in> motors_completed ?mw0)"
    and new: "\<forall>m. m \<in> set (emitted w) \<longrightarrow>
                  map_of (results_pmpwm mw') m = map_of (pm_results w) m
                  \<and> m \<in> motors_completed mw'"
    unfolding same by auto
  show "\<forall>m. m \<noteq> motor \<longrightarrow>
              map_of (results_pmpwm mw') m = map_of (results_pmpwm mw) m
              \<and> (m \<in> motors_completed mw') = (m \<in> motors_completed mw)
              \<and> per_motor_accuracy mw' m = per_motor_accuracy mw m"
  proof (intro allI impI)
    fix m
    assume m: "m \<noteq> motor"
    with em have "m \<notin> set (emitted w)" by auto
    with keep forget_motor_frame[OF m, of mw]
    have "map_of (results_pmpwm mw') m = map_of (results_pmpwm mw) m"
      "(m \<in> motors_completed mw') = (m \<in> motors_completed mw)" by simp_all
    then show "map_of (results_pmpwm mw') m = map_of (results_pmpwm mw) m
              \<and> (m \<in> motors_completed mw') = (m \<in> motors_completed mw)
              \<and> per_motor_accuracy mw' m = per_motor_accuracy mw m"
      by (simp add: per_motor_accuracy_def)
  qed
  have completed: "map_of (results_pmpwm mw') motor = map_of (pm_results w) motor"
    if "motor \<in> motors_completed mw'"
  proof (cases "motor \<in> set (emitted w)")
    case True
    with new show ?thesis by simp
  next
    case False
    with keep forget_motor_discards[of motor mw] that show ?thesis by simp
  qed
  have undone: "map_of (results_pmpwm mw') motor = None"
    if "motor \<notin> motors_completed mw'"
  proof (cases "motor \<in> set (emitted w)")
    case True
    with new that show ?thesis by simp
  next
    case False
    with keep forget_motor_discards[of motor mw] show ?thesis by simp
  qed
  from w ms completed undone
  show "\<exists>res w. pmpwm_run (mw_hyps mw) seq_choices (new_worker (mw_vibro mw) [motor] events)
                       = Returned (res, w)
               \<and> motors w = [motor]
               \<and> (motor \<in> motors_completed mw' \<longrightarrow>
                     map_of (results_pmpwm mw') motor = map_of (pm_results w) motor)
               \<and> (motor \<notin> motors_completed mw' \<longrightarrow>
                     map_of (results_pmpwm mw') motor = None)"
    by blast
qed

lemma ex_rewrite:
  "(case run_pmpwm_for_motor (\<lambda>_. []) [Answer 2, Answer 1] 3
           \<lparr>mw_vibro = \<lparr>vb_n_motors = 10, vb_connected = True, vb_written = [],
                         vb_indicated = 0\<rparr>,
            mw_hyps = default_hyps\<lparr>pmpwm_pwm_values := [10, 20], pmpwm_repeats := 1\<rparr>,
            motors_all = [3, 4], motors_completed = {3, 4},
            results_pmpwm = [(3, [(1, 1), (2, 2)]), (4, [(1, 1), (2, 2)])],
            pending_queue = []\<rparr> of
      Returned (mw', fin) \<Rightarrow> results_pmpwm mw' = [(4, [(1, 1), (2, 2)]), (3, [(1, 2), (2, 1)])]
    | _ \<Rightarrow> False)"
  by code_simp

theorem rewrite_frame_witness:
  "\<exists>mw' fin.
      run_pmpwm_for_motor (\<lambda>_. []) [Answer 2, Answer 1] 3
           \<lparr>mw_vibro = \<lparr>vb_n_motors = 10, vb_connected = True, vb_written = [],
                         vb_indicated = 0\<rparr>,
            mw_hyps = default_hyps\<lparr>pmpwm_pwm_values := [10, 20], pmpwm_repeats := 1\<rparr>,
            motors_all = [3, 4], motors_completed = {3, 4},
            results_pmpwm = [(3, [(1, 1), (2, 2)]), (4, [(1, 1), (2, 2)])],
            pending_queue = []\<rparr> = Returned (mw', fin)
      \<and> map_of (results_pmpwm mw') 4 = Some [(1, 1), (2, 2)]
      \<and> 4 \<in> motors_completed mw'
      \<and> per_motor_accuracy mw' 4 = 1
      \<and> map_of (results_pmpwm mw') 3 = Some [(1, 2), (2, 1)]"
proof -
  let ?mw = "\<lparr>mw_vibro = \<lparr>vb_n_motors = 10, vb_connected = True, vb_written = [],
                         vb_indicated = 0\<rparr>,
            mw_hyps = default_hyps\<lparr>pmpwm_pwm_values := [10, 20], pmpwm_repeats := 1\<rparr>,
            motors_all = [3, 4], motors_completed = {3, 4},
            results_pmpwm = [(3, [(1, 1), (2, 2)]), (4, [(1, 1), (2, 2)])],
            pending_queue = []\<rparr>"
  from ex_rewrite obtain mw' fin where
    run: "run_pmpwm_for_motor (\<lambda>_. []) [Answer 2, Answer 1] 3 ?mw = Returned (mw', fin)"
    and new: "results_pmpwm mw' = [(4, [(1, 1), (2, 2)]), (3, [(1, 2), (2, 1)])]"
    by (auto split: outcome.splits)
  from rewrite_frame[of 3 ?mw "\<lambda>_. []" "[Answer 2, Answer 1]" mw' fin] run
  have frame: "\<forall>m. m \<noteq> 3 \<longrightarrow>
              map_of (results_pmpwm mw') m = map_of (results_pmpwm ?mw) m
              \<and> (m \<in> motors_completed mw') = (m \<in> motors_completed ?mw)
              \<and> per_motor_accuracy mw' m = per_motor_accuracy ?mw m"
    by blast
  from frame[rule_format, of 4]
  have "map_of (results_pmpwm mw') 4 = Some [(1, 1), (2, 2)]" "4 \<in> motors_completed mw'"
    "per_motor_accuracy mw' 4 = 1"
    by (simp_all add: per_motor_accuracy_def)
  moreover from new have "map_of (results_pmpwm mw') 3 = Some [(1, 2), (2, 1)]" by simp
  ultimately show ?thesis using run by blast
qed

end
